theory Spec2Isabelle
  imports Main
begin

section \<open>Python values, tokens and the token stream\<close>

text \<open>
  The codec of \<^verbatim>\<open>penman/codec.py\<close> is dynamically typed: a node identifier, a node
  label and an edge target are whatever value the token carried. The values modelled
  are \<^verbatim>\<open>None\<close>, \<^verbatim>\<open>str\<close> and \<^verbatim>\<open>int\<close>; Python's \<^verbatim>\<open>float\<close> is left out of the
  embedding.
\<close>

datatype pyval = PNone | PStr string | PInt int

text \<open>
  A token as the parser reads it: \<^verbatim>\<open>token.type\<close>, \<^verbatim>\<open>token.text\<close> and
  \<^verbatim>\<open>token.value\<close>. The type is a Python string and is compared as one.
\<close>

record token =
  ttype :: string
  ttext :: string
  tvalue :: pyval

text \<open>
  The one error kind of the codec: the message given to \<^verbatim>\<open>tokens.error\<close> and the
  offending token, when there is one; Python's own \<^verbatim>\<open>UnboundLocalError\<close> for a
  local variable read before it is assigned. \<^verbatim>\<open>Fuel\<close> is not an error of the source: it is
  the answer of a recursion of the model that was given too little fuel.
\<close>

datatype error = DecodeError string "token option" | UnboundLocalError | Fuel

type_synonym 'a result = "error + 'a"

fun bind :: "'a result \<Rightarrow> ('a \<Rightarrow> 'b result) \<Rightarrow> 'b result" where
  "bind (Inl e) f = Inl e"
| "bind (Inr x) f = f x"

text \<open>Python's \<^verbatim>\<open>sep.join(parts)\<close>.\<close>

fun join :: "string \<Rightarrow> string list \<Rightarrow> string" where
  "join sep [] = []"
| "join sep [p] = p"
| "join sep (p # q # ps) = p @ sep @ join sep (q # ps)"

text \<open>
  Modelled from the spec: \<^verbatim>\<open>TokenIterator\<close> of \<^verbatim>\<open>penman.lexer\<close> is not among the
  sources. The stream is the list of the tokens not yet consumed. \<^verbatim>\<open>expect\<close> fails
  with a syntax error when the current token's type is not among the given types, or
  when no token is left. What \<^verbatim>\<open>peek\<close> answers once the stream is exhausted is the
  parameter \<open>eof\<close>: \<open>None\<close> when it raises a syntax error there, as the iterator of
  the library does, and \<open>Some t\<close> for an iterator that answers an end-of-input token
  \<open>t\<close>. The statements about the parser hold for every \<open>eof\<close>.
\<close>

definition peek :: "token option \<Rightarrow> token list \<Rightarrow> token result" where
  "peek eof ts =
     (case ts of
        t # _ \<Rightarrow> Inr t
      | [] \<Rightarrow> (case eof of
                 Some t \<Rightarrow> Inr t
               | None \<Rightarrow> Inl (DecodeError ''Unexpected end of input'' None)))"

definition next_token :: "token list \<Rightarrow> (token \<times> token list) result" where
  "next_token ts =
     (case ts of
        t # rest \<Rightarrow> Inr (t, rest)
      | [] \<Rightarrow> Inl (DecodeError ''Unexpected end of input'' None))"

definition expect :: "string list \<Rightarrow> token list \<Rightarrow> (token \<times> token list) result" where
  "expect choices ts =
     (case ts of
        [] \<Rightarrow> Inl (DecodeError ''Unexpected end of input'' None)
      | t # rest \<Rightarrow>
          if ttype t \<in> set choices then Inr (t, rest)
          else Inl (DecodeError (''Expected: '' @ join '', '' choices) (Some t)))"

section \<open>Alignment markers\<close>

text \<open>
  \<^verbatim>\<open>Alignment\<close> and \<^verbatim>\<open>RoleAlignment\<close> of \<^verbatim>\<open>penman.surface\<close>: the class given to
  \<^verbatim>\<open>_parse_alignment\<close>, the index tuple and the optional prefix.
\<close>

datatype marker_class = Alignment | RoleAlignment

record marker =
  cls :: marker_class
  indices :: "int list"
  prefix :: "string option"

definition is_digit :: "char \<Rightarrow> bool" where
  "is_digit c = (c \<in> set ''0123456789'')"

definition is_letter :: "char \<Rightarrow> bool" where
  "is_letter c =
     (c \<in> set ''abcdefghijklmnopqrstuvwxyzABCDEFGHIJKLMNOPQRSTUVWXYZ'')"

text \<open>
  The regular expression of \<^verbatim>\<open>_parse_alignment\<close>,
  \<^verbatim>\<open>~(?P<prefix>[a-zA-Z]\.?)?(?P<indices>\d+(?:,\d+)*)\<close>, matched at the start of
  the text as \<^verbatim>\<open>re.match\<close> does.

  \<open>prefix_alternatives\<close> lists the ways the optional prefix group can match, in the
  order a backtracking matcher tries them: the letter with its dot, the letter alone,
  nothing. Each comes with the rest of the text.
\<close>

definition prefix_alternatives :: "string \<Rightarrow> (string option \<times> string) list" where
  "prefix_alternatives s =
     (case s of
        c # r \<Rightarrow>
          (if is_letter c then
             (case r of
                d # r' \<Rightarrow>
                  (if d = CHR ''.'' then [(Some [c, d], r'), (Some [c], r)]
                   else [(Some [c], r)])
              | [] \<Rightarrow> [(Some [c], r)])
           else [])
      | [] \<Rightarrow> [])
     @ [(None, s)]"

text \<open>The greedy tail \<^verbatim>\<open>(?:,\d+)*\<close>: the text it matches.\<close>

function more_indices :: "string \<Rightarrow> string" where
  "more_indices s =
     (case s of
        [] \<Rightarrow> []
      | c # r \<Rightarrow>
          (if c = CHR '','' \<and> takeWhile is_digit r \<noteq> []
           then c # takeWhile is_digit r @ more_indices (dropWhile is_digit r)
           else []))"
  by pat_completeness auto
termination
  by (relation "measure length") (auto simp: length_dropWhile_le less_Suc_eq_le)

text \<open>The group \<^verbatim>\<open>\d+(?:,\d+)*\<close>: the text it matches, when it matches.\<close>

definition match_indices :: "string \<Rightarrow> string option" where
  "match_indices s =
     (if takeWhile is_digit s = [] then None
      else Some (takeWhile is_digit s @ more_indices (dropWhile is_digit s)))"

fun first_match :: "(string option \<times> string) list \<Rightarrow> (string option \<times> string) option" where
  "first_match [] = None"
| "first_match ((p, r) # alts) =
     (case match_indices r of
        Some ix \<Rightarrow> Some (p, ix)
      | None \<Rightarrow> first_match alts)"

text \<open>The match object: the groups \<^verbatim>\<open>prefix\<close> and \<^verbatim>\<open>indices\<close>, or no match.\<close>

definition alignment_match :: "string \<Rightarrow> (string option \<times> string) option" where
  "alignment_match s =
     (case s of
        [] \<Rightarrow> None
      | c # r \<Rightarrow> if c = CHR ''~'' then first_match (prefix_alternatives r) else None)"

text \<open>Python's \<^verbatim>\<open>s.split(',')\<close> and \<^verbatim>\<open>int\<close> on a string of decimal digits.\<close>

fun split_on :: "char \<Rightarrow> string \<Rightarrow> string list" where
  "split_on c [] = [[]]"
| "split_on c (x # xs) =
     (if x = c then [] # split_on c xs
      else (case split_on c xs of
              p # ps \<Rightarrow> (x # p) # ps
            | [] \<Rightarrow> [[x]]))"

definition digit_value :: "char \<Rightarrow> int" where
  "digit_value c = int (length (takeWhile (\<lambda>d. d \<noteq> c) ''0123456789''))"

definition int_of_digits :: "string \<Rightarrow> int" where
  "int_of_digits ds = foldl (\<lambda>n c. 10 * n + digit_value c) 0 ds"

text \<open>
  \<^verbatim>\<open>_parse_alignment\<close> after its \<^verbatim>\<open>expect\<close>: the marker built from the token's text.
\<close>

definition decode_alignment :: "marker_class \<Rightarrow> string \<Rightarrow> marker" where
  "decode_alignment k s =
     (case alignment_match s of
        Some (p, ix) \<Rightarrow>
          \<lparr>cls = k, indices = map int_of_digits (split_on CHR '','' ix), prefix = p\<rparr>
      | None \<Rightarrow> \<lparr>cls = k, indices = [], prefix = None\<rparr>)"

definition parse_alignment ::
  "marker_class \<Rightarrow> token list \<Rightarrow> (marker \<times> token list) result" where
  "parse_alignment k ts =
     bind (expect [''ALIGNMENT''] ts) (\<lambda>(t, rest).
       Inr (decode_alignment k (ttext t), rest))"

section \<open>Trees\<close>

text \<open>
  A node is the pair \<^verbatim>\<open>(id, edges)\<close>, an edge the triple
  \<^verbatim>\<open>(role, target, epidata)\<close>. A target is \<^verbatim>\<open>None\<close> or another atomic value
  (\<open>Atom\<close>, with \<open>Atom PNone\<close> for \<^verbatim>\<open>None\<close>), or a node.
\<close>

datatype target = Atom pyval | Node pyval "edge list"
  and edge = Edge (role: string) (target: target) (epidata: "marker list")

type_synonym node = "pyval \<times> edge list"

text \<open>
  A Python \<^verbatim>\<open>dict\<close> keeps its keys in the order of their first insertion: an
  association list, where \<^verbatim>\<open>d[k] = v\<close> replaces the value of a key already there and
  appends a new key.
\<close>

type_synonym metadata = "(string \<times> string) list"

fun dict_set :: "metadata \<Rightarrow> string \<Rightarrow> string \<Rightarrow> metadata" where
  "dict_set [] k v = [(k, v)]"
| "dict_set ((k', v') # d) k v =
     (if k' = k then (k, v) # d else (k', v') # dict_set d k v)"

record tree =
  root :: node
  tree_metadata :: metadata

section \<open>The parser\<close>

definition IDENTIFIERS :: "string list" where
  "IDENTIFIERS = [''SYMBOL'']"

definition ATOMS :: "string set" where
  "ATOMS = {''SYMBOL'', ''STRING'', ''INTEGER'', ''FLOAT''}"

lemma bind_cong [fundef_cong]:
  "m = m' \<Longrightarrow> (\<And>x. m' = Inr x \<Longrightarrow> f x = f' x) \<Longrightarrow> bind m f = bind m' f'"
  by (cases m') auto

subsection \<open>Comments\<close>

text \<open>
  Python's \<^verbatim>\<open>s.partition(sep)\<close> and \<^verbatim>\<open>s.rpartition(sep)\<close> for a non-empty \<open>sep\<close>
  (both calls of the source give a literal): the split at the first and at the last
  occurrence; the middle component is empty when \<open>sep\<close> does not occur.
\<close>

fun py_partition :: "string \<Rightarrow> string \<Rightarrow> string \<times> string \<times> string" where
  "py_partition sep [] = ([], [], [])"
| "py_partition sep (c # cs) =
     (if take (length sep) (c # cs) = sep then ([], sep, drop (length sep) (c # cs))
      else (case py_partition sep cs of
              (a, f, b) \<Rightarrow> if f = [] then (c # cs, [], []) else (c # a, f, b)))"

fun py_rpartition :: "string \<Rightarrow> string \<Rightarrow> string \<times> string \<times> string" where
  "py_rpartition sep [] = ([], [], [])"
| "py_rpartition sep (c # cs) =
     (case py_rpartition sep cs of
        (a, f, b) \<Rightarrow>
          if f \<noteq> [] then (c # a, f, b)
          else if take (length sep) (c # cs) = sep
          then ([], sep, drop (length sep) (c # cs))
          else ([], [], c # cs))"

lemma py_rpartition_found:
  "py_rpartition sep s = (a, f, b) \<Longrightarrow> (f \<noteq> [] \<longrightarrow> length a < length s) \<and> (f = [] \<longrightarrow> a = [])"
  by (induction s arbitrary: a f b) (auto split: prod.splits if_splits)

lemma py_rpartition_shorter:
  "s \<noteq> [] \<Longrightarrow> py_rpartition sep s = (a, f, b) \<Longrightarrow> length a < length s"
  using py_rpartition_found [of sep s a f b] by (cases "f = []") auto

text \<open>
  The inner loop of \<^verbatim>\<open>_parse_comments\<close>: \<^verbatim>\<open>while comment:\<close> splits off the last
  \<^verbatim>\<open>::\<close> and stores what follows it, split at its first space.
\<close>

function comment_loop :: "string \<Rightarrow> metadata \<Rightarrow> metadata" where
  "comment_loop comment md =
     (if comment = [] then md
      else (case py_rpartition ''::'' comment of
              (comment', found, meta) \<Rightarrow>
                comment_loop comment'
                  (if found \<noteq> [] then
                     (case py_partition '' '' meta of
                        (key, _, val) \<Rightarrow> dict_set md key val)
                   else md)))"
  by pat_completeness auto
termination
  by (relation "measure (\<lambda>(c, _). length c)") (auto dest: py_rpartition_shorter [OF _ sym])

text \<open>The outer loop: \<^verbatim>\<open>while tokens.peek().type == 'COMMENT'\<close>.\<close>

lemma next_token_shorter: "next_token ts = Inr (t, rest) \<Longrightarrow> length rest < length ts"
  by (auto simp: next_token_def split: list.splits)

lemma expect_shorter: "expect cs ts = Inr (t, rest) \<Longrightarrow> length rest < length ts"
  by (auto simp: expect_def split: list.splits if_splits)

function comments_loop :: "token option \<Rightarrow> metadata \<Rightarrow> token list \<Rightarrow> (metadata \<times> token list) result" where
  "comments_loop eof md ts =
     bind (peek eof ts) (\<lambda>p.
       if ttype p = ''COMMENT'' then
         bind (next_token ts) (\<lambda>(t, rest).
           comments_loop eof (comment_loop (ttext t) md) rest)
       else Inr (md, ts))"
  by pat_completeness auto
termination
  by (relation "measure (\<lambda>(_, _, ts). length ts)") (auto dest: next_token_shorter)

definition parse_comments :: "token option \<Rightarrow> token list \<Rightarrow> (metadata \<times> token list) result" where
  "parse_comments eof ts = comments_loop eof [] ts"

subsection \<open>Nodes and edges\<close>

text \<open>
  \<^verbatim>\<open>_parse_node_label\<close>: the label may be missing after the slash, and an alignment
  may follow the label.
\<close>

fun parse_node_label :: "token option \<Rightarrow> token list \<Rightarrow> (edge \<times> token list) result" where
  "parse_node_label eof ts =
     bind (expect [''SLASH''] ts) (\<lambda>(_, ts1).
     bind (peek eof ts1) (\<lambda>p.
       if ttype p \<in> ATOMS then
         bind (next_token ts1) (\<lambda>(lt, ts2).
         bind (peek eof ts2) (\<lambda>p2.
           if ttype p2 = ''ALIGNMENT'' then
             bind (parse_alignment Alignment ts2) (\<lambda>(m, ts3).
               Inr (Edge ''/'' (Atom (tvalue lt)) [m], ts3))
           else Inr (Edge ''/'' (Atom (tvalue lt)) [], ts2)))
       else Inr (Edge ''/'' (Atom PNone) [], ts1)))"

text \<open>
  \<^verbatim>\<open>_parse_node\<close>, the \<^verbatim>\<open>while\<close> loop that collects its edges, and \<^verbatim>\<open>_parse_edge\<close>.
  The three call each other; the first argument is the fuel of the recursion.
\<close>

fun parse_node :: "nat \<Rightarrow> token option \<Rightarrow> token list \<Rightarrow> (node \<times> token list) result"
  and parse_edges ::
    "nat \<Rightarrow> token option \<Rightarrow> edge list \<Rightarrow> token list \<Rightarrow> (edge list \<times> token list) result"
  and parse_edge :: "nat \<Rightarrow> token option \<Rightarrow> token list \<Rightarrow> (edge \<times> token list) result"
where
  "parse_node 0 eof ts = Inl Fuel"
| "parse_node (Suc n) eof ts =
     bind (expect [''LPAREN''] ts) (\<lambda>(_, ts1).
     bind (peek eof ts1) (\<lambda>p.
       if ttype p \<noteq> ''RPAREN'' then
         bind (expect IDENTIFIERS ts1) (\<lambda>(it, ts2).
         bind (peek eof ts2) (\<lambda>p2.
         bind (if ttype p2 = ''SLASH'' then
                 bind (parse_node_label eof ts2) (\<lambda>(e, ts3). Inr ([e], ts3))
               else Inr ([], ts2)) (\<lambda>(edges, ts3).
         bind (parse_edges n eof edges ts3) (\<lambda>(edges', ts4).
         bind (expect [''RPAREN''] ts4) (\<lambda>(_, ts5).
           Inr ((tvalue it, edges'), ts5))))))
       else
         bind (expect [''RPAREN''] ts1) (\<lambda>(_, ts2).
           Inr ((PNone, []), ts2))))"
| "parse_edges 0 eof edges ts = Inl Fuel"
| "parse_edges (Suc n) eof edges ts =
     bind (peek eof ts) (\<lambda>p.
       if ttype p \<noteq> ''RPAREN'' then
         bind (parse_edge n eof ts) (\<lambda>(e, ts1).
           parse_edges n eof (edges @ [e]) ts1)
       else Inr (edges, ts))"
| "parse_edge 0 eof ts = Inl Fuel"
| "parse_edge (Suc n) eof ts =
     bind (expect [''ROLE''] ts) (\<lambda>(rt, ts1).
     bind (peek eof ts1) (\<lambda>p.
     bind (if ttype p = ''ALIGNMENT'' then
             bind (parse_alignment RoleAlignment ts1) (\<lambda>(m, ts2). Inr ([m], ts2))
           else Inr ([], ts1)) (\<lambda>(epidata, ts2).
     bind (peek eof ts2) (\<lambda>nx.
       if ttype nx \<in> ATOMS then
         bind (next_token ts2) (\<lambda>(tt, ts3).
         bind (peek eof ts3) (\<lambda>p3.
           if ttype p3 = ''ALIGNMENT'' then
             bind (parse_alignment Alignment ts3) (\<lambda>(m, ts4).
               Inr (Edge (ttext rt) (Atom (tvalue tt)) (epidata @ [m]), ts4))
           else Inr (Edge (ttext rt) (Atom (tvalue tt)) epidata, ts3)))
       else if ttype nx = ''LPAREN'' then
         bind (parse_node n eof ts2) (\<lambda>((i, es), ts3).
           Inr (Edge (ttext rt) (Node i es) epidata, ts3))
       else if ttype nx \<notin> {''ROLE'', ''RPAREN''} then
         Inl (DecodeError ''Expected: ATOM, LPAREN'' (Some nx))
       else Inr (Edge (ttext rt) (Atom PNone) epidata, ts2)))))"

text \<open>
  \<^verbatim>\<open>parse\<close> on the tokens that \<^verbatim>\<open>lex(s, pattern=PENMAN_RE)\<close> gave. The fuel is
  enough for every token list (\<open>parse_total\<close>), and more fuel would give the same tree
  (\<open>parse_more_fuel\<close>).
\<close>

definition parse :: "token option \<Rightarrow> token list \<Rightarrow> tree result" where
  "parse eof ts =
     bind (parse_comments eof ts) (\<lambda>(md, ts1).
     bind (parse_node (3 * length ts1 + 3) eof ts1) (\<lambda>(nd, _).
       Inr \<lparr>root = nd, tree_metadata = md\<rparr>))"

subsection \<open>Triples\<close>

text \<open>
  The loop of \<^verbatim>\<open>parse_triples\<close>. The local variable \<^verbatim>\<open>target\<close> is assigned only
  when the next token is an atom or the closing parenthesis, and otherwise keeps what
  an earlier round left in it (\<open>None\<close>: not yet bound).
\<close>

function triples_loop ::
  "token option \<Rightarrow> pyval option \<Rightarrow> (string \<times> string \<times> pyval) list \<Rightarrow> token list \<Rightarrow>
   (string \<times> string \<times> pyval) list result" where
  "triples_loop eof tgt triples ts =
     bind (expect [''SYMBOL''] ts) (\<lambda>(rt, ts1).
     bind (expect [''LPAREN''] ts1) (\<lambda>(_, ts2).
     bind (expect IDENTIFIERS ts2) (\<lambda>(st, ts3).
     bind (expect [''COMMA''] ts3) (\<lambda>(_, ts4).
     bind (peek eof ts4) (\<lambda>nx.
     bind (if ttype nx \<in> ATOMS then
             bind (next_token ts4) (\<lambda>(tt, ts5). Inr (Some (tvalue tt), ts5))
           else if ttype nx = ''RPAREN'' then Inr (Some PNone, ts4)
           else Inr (tgt, ts4)) (\<lambda>(tgt', ts5).
     bind (expect [''RPAREN''] ts5) (\<lambda>(_, ts6).
     bind (case tgt' of
             Some v \<Rightarrow> Inr v
           | None \<Rightarrow> Inl UnboundLocalError) (\<lambda>v.
     bind (peek eof ts6) (\<lambda>p.
       if ttype p = ''CARET'' then
         bind (next_token ts6) (\<lambda>(_, ts7).
           triples_loop eof tgt' (triples @ [(ttext st, ttext rt, v)]) ts7)
       else Inr (triples @ [(ttext st, ttext rt, v)]))))))))))"
  by pat_completeness auto
termination
  apply (relation "measure (\<lambda>(_, _, _, ts). length ts)")
   apply simp
  apply (auto dest!: expect_shorter simp: next_token_def split: if_splits list.splits)
  done

text \<open>\<^verbatim>\<open>parse_triples\<close> on the tokens that \<^verbatim>\<open>lex(s, pattern=TRIPLE_RE)\<close> gave.\<close>

definition parse_triples ::
  "token option \<Rightarrow> token list \<Rightarrow> (string \<times> string \<times> pyval) list result" where
  "parse_triples eof ts = triples_loop eof None [] ts"

section \<open>The formatter\<close>

text \<open>Python's \<^verbatim>\<open>str\<close> and truth value of the values modelled.\<close>

definition digit_char :: "nat \<Rightarrow> char" where
  "digit_char d = ''0123456789'' ! d"

function str_nat :: "nat \<Rightarrow> string" where
  "str_nat n = (if n < 10 then [digit_char n] else str_nat (n div 10) @ [digit_char (n mod 10)])"
  by pat_completeness auto
termination
  by (relation "measure id") auto

definition str_int :: "int \<Rightarrow> string" where
  "str_int i = (if i < 0 then CHR ''-'' # str_nat (nat (- i)) else str_nat (nat i))"

fun str :: "pyval \<Rightarrow> string" where
  "str PNone = ''None''"
| "str (PStr s) = s"
| "str (PInt i) = str_int i"

fun truthy :: "pyval \<Rightarrow> bool" where
  "truthy PNone = False"
| "truthy (PStr s) = (s \<noteq> [])"
| "truthy (PInt i) = (i \<noteq> 0)"

text \<open>
  Modelled from the spec: the classes of \<^verbatim>\<open>penman.surface\<close> are not among the
  sources. A role alignment is a role epigraph (mode 1), an alignment a target
  epigraph (mode 2); a marker renders as \<^verbatim>\<open>~\<close>, the prefix when there is one, a dot
  when the prefix is present, and the indices joined by commas.
\<close>

definition mode :: "marker \<Rightarrow> nat" where
  "mode m = (case cls m of RoleAlignment \<Rightarrow> 1 | Alignment \<Rightarrow> 2)"

definition str_marker :: "marker \<Rightarrow> string" where
  "str_marker m =
     ''~'' @ (case prefix m of None \<Rightarrow> [] | Some p \<Rightarrow> p @ ''.'')
     @ join '','' (map str_int (indices m))"

text \<open>
  \<^verbatim>\<open>is_atomic\<close> of \<^verbatim>\<open>penman.tree\<close> is not among the sources either: a node is not
  atomic, a string or a number is; whether \<^verbatim>\<open>None\<close> counts as atomic is the parameter
  \<open>na\<close> of the formatter.
\<close>

fun is_atomic :: "bool \<Rightarrow> target \<Rightarrow> bool" where
  "is_atomic na (Atom PNone) = na"
| "is_atomic na (Atom v) = True"
| "is_atomic na (Node i es) = False"

text \<open>
  \<^verbatim>\<open>target in ids\<close>, which the source evaluates only for an atomic target.
\<close>

fun in_ids :: "target \<Rightarrow> pyval set \<Rightarrow> bool" where
  "in_ids (Atom v) ids = (v \<in> ids)"
| "in_ids (Node i es) ids = False"

definition newline :: char where
  "newline = CHR 0x0A"

text \<open>The role as \<^verbatim>\<open>_format_edge\<close> writes it.\<close>

definition format_role :: "string \<Rightarrow> string" where
  "format_role r = (if r \<noteq> ''/'' \<and> \<not> (take 1 r = '':'') then '':'' @ r else r)"

definition role_epi :: "marker list \<Rightarrow> string" where
  "role_epi epis = concat (map str_marker (filter (\<lambda>m. mode m = 1) epis))"

definition target_epi :: "marker list \<Rightarrow> string" where
  "target_epi epis = concat (map str_marker (filter (\<lambda>m. mode m = 2) epis))"

text \<open>The column at which \<^verbatim>\<open>_format_node\<close> aligns the edges of a node, and its joiner.\<close>

definition node_column :: "int option \<Rightarrow> int \<Rightarrow> pyval \<Rightarrow> int" where
  "node_column indent column i =
     (case indent of
        None \<Rightarrow> column
      | Some k \<Rightarrow> if k = - 1 then column + int (length (str i)) + 2 else column + k)"

definition joiner :: "int option \<Rightarrow> int \<Rightarrow> string" where
  "joiner indent column =
     (case indent of
        None \<Rightarrow> '' ''
      | Some k \<Rightarrow> newline # replicate (nat column) CHR '' '')"

text \<open>
  \<^verbatim>\<open>_format_node\<close>, the \<^verbatim>\<open>for\<close> loop over its edges with the variables \<^verbatim>\<open>compact\<close>
  and \<^verbatim>\<open>parts\<close> it updates, and \<^verbatim>\<open>_format_edge\<close>.
\<close>

fun format_node :: "bool \<Rightarrow> pyval \<Rightarrow> edge list \<Rightarrow> int option \<Rightarrow> int \<Rightarrow> pyval set \<Rightarrow> string"
  and format_edges ::
    "bool \<Rightarrow> edge list \<Rightarrow> int option \<Rightarrow> int \<Rightarrow> pyval set \<Rightarrow> bool \<times> string list \<Rightarrow>
     bool \<times> string list"
  and format_edge :: "bool \<Rightarrow> edge \<Rightarrow> int option \<Rightarrow> int \<Rightarrow> pyval set \<Rightarrow> string"
where
  "format_node na i edges indent column ids =
     (if \<not> truthy i then ''()''
      else if edges = [] then ''('' @ str i @ '')''
      else
        (case format_edges na edges indent (node_column indent column i) ids (ids \<noteq> {}, []) of
           (compact, parts) \<Rightarrow>
             ''('' @ str i @ '' ''
             @ join (joiner indent (node_column indent column i))
                 (if compact then [join '' '' parts] else parts)
             @ '')''))"
| "format_edges na [] indent column ids (compact, parts) = (compact, parts)"
| "format_edges na (e # es) indent column ids (compact, parts) =
     (if compact \<and> (\<not> is_atomic na (target e) \<or> in_ids (target e) ids) then
        format_edges na es indent column ids
          (False, (if parts \<noteq> [] then [join '' '' parts] else parts)
                  @ [format_edge na e indent column ids])
      else
        format_edges na es indent column ids
          (compact, parts @ [format_edge na e indent column ids]))"
| "format_edge na (Edge r tgt epis) indent column ids =
     format_role r @ role_epi epis @ '' ''
     @ (case tgt of
          Atom v \<Rightarrow> (if v = PNone then [] else str v)
        | Node i es \<Rightarrow>
            format_node na i es indent
              (if indent = Some (- 1)
               then column + int (length (format_role r)) + int (length (role_epi epis)) + 1
               else column)
              ids)
     @ target_epi epis"

text \<open>
  Modelled from the spec: \<^verbatim>\<open>Tree.nodes\<close> of \<^verbatim>\<open>penman.tree\<close> is not among the
  sources. The identifiers that \<^verbatim>\<open>format\<close> collects for the compact layout are those
  that appear as any node's id in the tree; a node without an identifier (its id is
  \<^verbatim>\<open>None\<close>) gives none.
\<close>

fun node_ids :: "pyval \<Rightarrow> edge list \<Rightarrow> pyval list"
  and edge_ids :: "edge \<Rightarrow> pyval list"
where
  "node_ids i es = (if i = PNone then [] else [i]) @ concat (map edge_ids es)"
| "edge_ids (Edge r tgt epis) =
     (case tgt of Atom v \<Rightarrow> [] | Node i es \<Rightarrow> node_ids i es)"

definition format_tree :: "bool \<Rightarrow> tree \<Rightarrow> int option \<Rightarrow> bool \<Rightarrow> string" where
  "format_tree na t indent compact =
     join [newline]
       (map (\<lambda>(key, val). ''# ::'' @ key @ '' '' @ val) (tree_metadata t)
        @ [format_node na (fst (root t)) (snd (root t)) indent 0
             (set (if compact then node_ids (fst (root t)) (snd (root t)) else []))])"

text \<open>
  \<^verbatim>\<open>format_triples\<close> on the triples that \<^verbatim>\<open>g.triples()\<close> gives (\<^verbatim>\<open>Graph\<close> is not
  among the sources).
\<close>

definition format_triples :: "(string \<times> string \<times> pyval) list \<Rightarrow> bool \<Rightarrow> string" where
  "format_triples triples indent =
     join (if indent then '' ^'' @ [newline] else '' ^ '')
       (map (\<lambda>(source, rel, tgt). rel @ ''('' @ source @ '', '' @ str tgt @ '')'') triples)"

section \<open>Notions used in the statements\<close>

text \<open>
  An edge stays on the first line when the compact layout is on and its target is atomic
  and is not one of the tree's identifiers.
\<close>

definition compactable :: "bool \<Rightarrow> pyval set \<Rightarrow> edge \<Rightarrow> bool" where
  "compactable na ids e = (is_atomic na (target e) \<and> \<not> in_ids (target e) ids)"

text \<open>A token whose decoded value is its text, as for a symbol, a role or punctuation.\<close>

definition token_of :: "string \<Rightarrow> string \<Rightarrow> token" where
  "token_of ty s = \<lparr>ttype = ty, ttext = s, tvalue = PStr s\<rparr>"

text \<open>
  The pairs of one comment in the order the spec gives: the text is split at the last
  \<^verbatim>\<open>::\<close> again and again, rightmost first, and what follows the marker is split at
  its first space into key and value.
\<close>

function comment_pairs :: "string \<Rightarrow> (string \<times> string) list" where
  "comment_pairs c =
     (if c = [] then []
      else (case py_rpartition ''::'' c of
              (c', found, meta) \<Rightarrow>
                (if found \<noteq> [] then
                   [(fst (py_partition '' '' meta), snd (snd (py_partition '' '' meta)))]
                 else [])
                @ comment_pairs c'))"
  by pat_completeness auto
termination
  by (relation "measure length") (auto dest: py_rpartition_shorter [OF _ sym])

declare comment_pairs.simps [simp del]

text \<open>
  The tokens of \<^verbatim>\<open>instance(b, bark) ^ ARG1(b, d)\<close>.
\<close>

definition bark_tokens :: "token list" where
  "bark_tokens =
     [token_of ''SYMBOL'' ''instance'', token_of ''LPAREN'' ''('', token_of ''SYMBOL'' ''b'',
      token_of ''COMMA'' '','', token_of ''SYMBOL'' ''bark'', token_of ''RPAREN'' '')'',
      token_of ''CARET'' ''^'',
      token_of ''SYMBOL'' ''ARG1'', token_of ''LPAREN'' ''('', token_of ''SYMBOL'' ''b'',
      token_of ''COMMA'' '','', token_of ''SYMBOL'' ''d'', token_of ''RPAREN'' '')'']"

text \<open>
  Modelled from the spec: the token lists of the triple notation, \<^verbatim>\<open>relation '(' source
  ',' target? ')'\<close> repeated, each repetition separated from the next by a caret.
\<close>

fun triple_conjunction :: "token list \<Rightarrow> bool" where
  "triple_conjunction (r # l # s # c # rest) =
     (ttype r = ''SYMBOL'' \<and> ttype l = ''LPAREN'' \<and> ttype s = ''SYMBOL''
      \<and> ttype c = ''COMMA''
      \<and> (case rest of
            [] \<Rightarrow> False
          | t # rest1 \<Rightarrow>
              if ttype t \<in> ATOMS then
                (case rest1 of
                   [] \<Rightarrow> False
                 | p # rest2 \<Rightarrow>
                     ttype p = ''RPAREN''
                     \<and> (case rest2 of
                           [] \<Rightarrow> True
                         | k # rest3 \<Rightarrow> ttype k = ''CARET'' \<and> triple_conjunction rest3))
              else
                ttype t = ''RPAREN''
                \<and> (case rest1 of
                      [] \<Rightarrow> True
                    | k # rest3 \<Rightarrow> ttype k = ''CARET'' \<and> triple_conjunction rest3)))"
| "triple_conjunction _ = False"


text \<open>The markers that a node and its edges carry, nested nodes included.\<close>

fun node_markers :: "pyval \<Rightarrow> edge list \<Rightarrow> marker list"
  and edge_markers :: "edge \<Rightarrow> marker list"
where
  "node_markers i es = concat (map edge_markers es)"
| "edge_markers (Edge r tgt epis) =
     epis @ (case tgt of Atom v \<Rightarrow> [] | Node i es \<Rightarrow> node_markers i es)"

text \<open>A marker that is the decoding of one of the alignment tokens of \<open>ts\<close>.\<close>

definition decoded_from :: "token list \<Rightarrow> marker \<Rightarrow> bool" where
  "decoded_from ts m =
     (\<exists>t. t \<in> set ts \<and> ttype t = ''ALIGNMENT'' \<and> m = decode_alignment (cls m) (ttext t))"

declare more_indices.simps [simp del] comment_loop.simps [simp del]
  comments_loop.simps [simp del] triples_loop.simps [simp del] str_nat.simps [simp del]
  format_node.simps [simp del]

section \<open>Decoding an alignment marker\<close>

lemma decode_alignment_e12:
  "decode_alignment k ''~e.1,2'' = \<lparr>cls = k, indices = [1, 2], prefix = Some ''e.''\<rparr>"
  by (simp add: decode_alignment_def alignment_match_def prefix_alternatives_def is_letter_def
      match_indices_def is_digit_def more_indices.simps int_of_digits_def digit_value_def)

lemma decode_alignment_3:
  "decode_alignment k ''~3'' = \<lparr>cls = k, indices = [3], prefix = None\<rparr>"
  by (simp add: decode_alignment_def alignment_match_def prefix_alternatives_def is_letter_def
      match_indices_def is_digit_def more_indices.simps int_of_digits_def digit_value_def)

lemma decode_alignment_tilde:
  "decode_alignment k ''~'' = \<lparr>cls = k, indices = [], prefix = None\<rparr>"
  by (simp add: decode_alignment_def alignment_match_def prefix_alternatives_def
      match_indices_def)

lemma parse_alignment_token:
  "ttype t = ''ALIGNMENT'' \<Longrightarrow>
   parse_alignment k (t # ts) = Inr (decode_alignment k (ttext t), ts)"
  by (simp add: parse_alignment_def expect_def)

text \<open>
  C2, as stated, fails: the group \<^verbatim>\<open>prefix\<close> of the regular expression takes the dot
  with the letter, so the text \<^verbatim>\<open>~e.1,2\<close> decodes to the prefix \<^verbatim>\<open>e.\<close>, not \<^verbatim>\<open>e\<close>.
\<close>

theorem C2_prefix_counterexample:
  "\<not> (prefix (decode_alignment Alignment ''~e.1,2'') = Some ''e'')"
  by (simp add: decode_alignment_e12)

text \<open>
  C2, amended: decoding an alignment token whose text is \<^verbatim>\<open>~e.1,2\<close> gives a marker
  with prefix \<^verbatim>\<open>e.\<close> (the dot included) and indices (1, 2); the text \<^verbatim>\<open>~3\<close> gives
  no prefix and indices (3,); the malformed text \<^verbatim>\<open>~\<close> gives no prefix and no
  indices. In all three cases \<^verbatim>\<open>_parse_alignment\<close> returns the marker, of the class
  it was given, and consumes the token: no error is raised.
\<close>

theorem C2_alignment_decoding:
  "parse_alignment k (\<lparr>ttype = ''ALIGNMENT'', ttext = ''~e.1,2'', tvalue = v\<rparr> # ts)
     = Inr (\<lparr>cls = k, indices = [1, 2], prefix = Some ''e.''\<rparr>, ts)
   \<and> parse_alignment k (\<lparr>ttype = ''ALIGNMENT'', ttext = ''~3'', tvalue = v\<rparr> # ts)
     = Inr (\<lparr>cls = k, indices = [3], prefix = None\<rparr>, ts)
   \<and> parse_alignment k (\<lparr>ttype = ''ALIGNMENT'', ttext = ''~'', tvalue = v\<rparr> # ts)
     = Inr (\<lparr>cls = k, indices = [], prefix = None\<rparr>, ts)"
  by (simp add: parse_alignment_token decode_alignment_e12 decode_alignment_3
      decode_alignment_tilde)

section \<open>The layout of a formatted node\<close>

lemma format_edges_spread:
  "format_edges na es indent c ids (False, parts)
     = (False, parts @ map (\<lambda>e. format_edge na e indent c ids) es)"
  by (induction es arbitrary: parts) simp_all

lemma format_edges_compact:
  "format_edges na es indent c ids (True, parts) =
     (if dropWhile (compactable na ids) es = []
      then (True, parts @ map (\<lambda>e. format_edge na e indent c ids) es)
      else (False,
            (if parts @ map (\<lambda>e. format_edge na e indent c ids)
                          (takeWhile (compactable na ids) es) = [] then []
             else [join '' '' (parts @ map (\<lambda>e. format_edge na e indent c ids)
                                           (takeWhile (compactable na ids) es))])
            @ map (\<lambda>e. format_edge na e indent c ids) (dropWhile (compactable na ids) es)))"
proof (induction es arbitrary: parts)
  case Nil
  then show ?case by simp
next
  case (Cons e es)
  show ?case
  proof (cases "compactable na ids e")
    case True
    then have "format_edges na (e # es) indent c ids (True, parts)
        = format_edges na es indent c ids (True, parts @ [format_edge na e indent c ids])"
      by (simp add: compactable_def)
    with True Cons.IH [of "parts @ [format_edge na e indent c ids]"] show ?thesis
      by simp
  next
    case False
    then have "format_edges na (e # es) indent c ids (True, parts)
        = format_edges na es indent c ids
            (False, (if parts \<noteq> [] then [join '' '' parts] else parts)
                    @ [format_edge na e indent c ids])"
      by (auto simp: compactable_def)
    with False show ?thesis
      by (simp add: format_edges_spread)
  qed
qed

text \<open>
  The parts that \<^verbatim>\<open>_format_node\<close> joins with its joiner: the leading run of
  compactable edges on one line (when the compact layout is on, that is when \<open>ids\<close> is
  not empty), then one part for each edge from the first that is not compactable.
\<close>

lemma format_node_layout:
  assumes "truthy i" and "edges \<noteq> []"
  shows "format_node na i edges indent column ids =
     ''('' @ str i @ '' ''
     @ join (joiner indent (node_column indent column i))
         ((if ids = {} \<or> takeWhile (compactable na ids) edges = [] then []
           else [join '' '' (map (\<lambda>e. format_edge na e indent (node_column indent column i) ids)
                               (takeWhile (compactable na ids) edges))])
          @ map (\<lambda>e. format_edge na e indent (node_column indent column i) ids)
              (if ids = {} then edges else dropWhile (compactable na ids) edges))
     @ '')''"
proof (cases "ids = {}")
  case True
  with assms show ?thesis
    by (simp add: format_node.simps format_edges_spread)
next
  case False
  show ?thesis
  proof (cases "dropWhile (compactable na ids) edges = []")
    case True
    then have tw: "takeWhile (compactable na ids) edges = edges"
      by (metis takeWhile_dropWhile_id append_Nil2)
    have "format_edges na edges indent (node_column indent column i) ids (True, [])
        = (True, map (\<lambda>e. format_edge na e indent (node_column indent column i) ids) edges)"
      by (simp only: format_edges_compact True if_True append_Nil simp_thms)
    with assms False have "format_node na i edges indent column ids =
        ''('' @ str i @ '' ''
        @ join (joiner indent (node_column indent column i))
            [join '' '' (map (\<lambda>e. format_edge na e indent (node_column indent column i) ids)
                          edges)]
        @ '')''"
      by (simp add: format_node.simps)
    with assms False show ?thesis
      by (simp only: tw True list.map append_Nil2 append_Nil if_False if_True simp_thms)
  next
    case nonempty: False
    with assms False show ?thesis
      by (simp add: format_node.simps format_edges_compact del: dropWhile_eq_Nil_conv)
  qed
qed

section \<open>Nodes without an identifier\<close>

text \<open>
  C10: for every node whose id is \<^verbatim>\<open>None\<close> or otherwise false (the empty string, the
  number 0), \<^verbatim>\<open>_format_node\<close> returns exactly \<^verbatim>\<open>()\<close> whatever the node's edges,
  the indentation, the column and the identifier set are: the edges of such a node are
  dropped from the output. So does \<^verbatim>\<open>format\<close> for a tree without metadata whose root is
  such a node.
\<close>

theorem C10_empty_node:
  assumes "\<not> truthy i"
  shows "format_node na i edges indent column ids = ''()''
       \<and> format_tree na \<lparr>root = (i, edges), tree_metadata = []\<rparr> indent compact = ''()''"
  using assms by (simp add: format_node.simps format_tree_def)

theorem C10_empty_node_witness:
  "\<not> truthy PNone \<and> \<not> truthy (PStr [])
   \<and> format_node True PNone [Edge '':ARG0'' (Atom (PStr ''b'')) []] (Some (- 1)) 0 {} = ''()''
   \<and> format_tree True \<lparr>root = (PStr [], [Edge '':ARG0'' (Atom (PStr ''b'')) []]),
         tree_metadata = []\<rparr> (Some (- 1)) False = ''()''"
  using C10_empty_node [where i = PNone and na = True
      and edges = "[Edge '':ARG0'' (Atom (PStr ''b'')) []]" and indent = "Some (- 1)"
      and column = 0 and ids = "{}"]
    C10_empty_node [where i = "PStr []" and na = True
      and edges = "[Edge '':ARG0'' (Atom (PStr ''b'')) []]" and indent = "Some (- 1)"
      and compact = False]
  by simp

section \<open>Roles as they are written\<close>

text \<open>
  C9: for every edge whose role is neither exactly \<^verbatim>\<open>/\<close> nor starts with \<^verbatim>\<open>:\<close>,
  \<^verbatim>\<open>_format_edge\<close> writes the role with a \<^verbatim>\<open>:\<close> before it (and counts that colon in
  the column it gives to a nested node). So the text of a formatted edge starts with
  \<^verbatim>\<open>:\<close> unless the role is \<^verbatim>\<open>/\<close>, and the role written for a colon-less role is not
  the role the tree holds.
\<close>

theorem C9_role_colon:
  assumes "r \<noteq> ''/''" and "take 1 r \<noteq> '':''"
  shows "format_edge na (Edge r tgt epis) indent column ids =
           '':'' @ r @ role_epi epis @ '' ''
           @ (case tgt of
                Atom v \<Rightarrow> (if v = PNone then [] else str v)
              | Node i es \<Rightarrow>
                  format_node na i es indent
                    (if indent = Some (- 1)
                     then column + int (length ('':'' @ r)) + int (length (role_epi epis)) + 1
                     else column)
                    ids)
           @ target_epi epis
       \<and> format_role r = '':'' @ r \<and> format_role r \<noteq> r
       \<and> take 1 (format_edge na (Edge r tgt epis) indent column ids) = '':''"
proof -
  from assms have colon: "format_role r = '':'' @ r"
    by (simp add: format_role_def)
  then show ?thesis
    by (cases tgt) simp_all
qed

theorem C9_role_colon_witness:
  "''ARG0'' \<noteq> ''/'' \<and> take 1 ''ARG0'' \<noteq> '':''
   \<and> format_edge True (Edge ''ARG0'' (Atom (PStr ''b'')) []) (Some (- 1)) 0 {} = '':ARG0 b''"
  using C9_role_colon [where r = "''ARG0''" and na = True and tgt = "Atom (PStr ''b'')"
      and epis = "[]" and indent = "Some (- 1)" and column = 0 and ids = "{}"]
  by (simp add: role_epi_def target_epi_def)

text \<open>Whatever the role, a formatted edge starts with a colon or is a \<^verbatim>\<open>/\<close> edge.\<close>

lemma format_edge_starts:
  "take 1 (format_edge na (Edge r tgt epis) indent column ids) = '':'' \<or> r = ''/''"
  by (cases r) (auto simp: format_role_def)

section \<open>Columns under automatic indentation\<close>

lemma join_Cons: "join sep (p # ps) = p @ concat (map (\<lambda>q. sep @ q) ps)"
  by (induction ps arbitrary: p) simp_all

text \<open>
  C7, as stated, fails for an edge whose role the tree holds without its colon: the
  column given to the nested node counts the role as it is written, colon included.
  The edge \<^verbatim>\<open>('ARG0', ('b', [('/', 'c', []), (':x', 'd', [])]), [])\<close> at column 0 is
  written \<^verbatim>\<open>:ARG0 (b / c\<close>, and \<^verbatim>\<open>:x d)\<close> on a second line after 9 spaces
  (6 for \<^verbatim>\<open>:ARG0\<close> and the space, 3 for \<^verbatim>\<open>(b\<close> and the space), where the length of
  the edge's own role would give 8.
\<close>

theorem C7_role_length_counterexample:
  "format_edge True
     (Edge ''ARG0'' (Node (PStr ''b'')
        [Edge ''/'' (Atom (PStr ''c'')) [], Edge '':x'' (Atom (PStr ''d'')) []]) [])
     (Some (- 1)) 0 {}
   = '':ARG0 (b / c'' @ [newline] @ replicate 9 CHR '' '' @ '':x d)''
   \<and> format_edge True
     (Edge ''ARG0'' (Node (PStr ''b'')
        [Edge ''/'' (Atom (PStr ''c'')) [], Edge '':x'' (Atom (PStr ''d'')) []]) [])
     (Some (- 1)) 0 {}
   \<noteq> format_role ''ARG0'' @ role_epi [] @ '' ''
     @ format_node True (PStr ''b'')
         [Edge ''/'' (Atom (PStr ''c'')) [], Edge '':x'' (Atom (PStr ''d'')) []]
         (Some (- 1)) (0 + int (length ''ARG0'') + int (length (role_epi [])) + 1) {}
     @ target_epi []"
  by (simp add: format_node.simps format_role_def role_epi_def target_epi_def
      node_column_def joiner_def newline_def eval_nat_numeral)

text \<open>
  C7, amended: when formatting with \<^verbatim>\<open>indent=-1\<close>, the column given to the nested node
  of an edge is the edge's column plus the length of the role as written (with the
  colon that \<^verbatim>\<open>_format_edge\<close> puts before a role that is neither \<^verbatim>\<open>/\<close> nor starts with
  \<^verbatim>\<open>:\<close>), plus the length of the rendered role epigraph, plus 1; and a node with an
  identifier and edges aligns its edges at the column it was given plus
  \<^verbatim>\<open>len(str(id)) + 2\<close>: its parts are formatted at that column and joined by a line
  break followed by that many spaces.
\<close>

theorem C7_auto_columns:
  "format_edge na (Edge r (Node i es) epis) (Some (- 1)) column ids =
     format_role r @ role_epi epis @ '' ''
     @ format_node na i es (Some (- 1))
         (column + int (length (format_role r)) + int (length (role_epi epis)) + 1) ids
     @ target_epi epis
   \<and> (truthy i \<and> edges \<noteq> [] \<longrightarrow>
       format_node na i edges (Some (- 1)) column ids =
         ''('' @ str i @ '' ''
         @ join (newline # replicate (nat (column + int (length (str i)) + 2)) CHR '' '')
             ((if ids = {} \<or> takeWhile (compactable na ids) edges = [] then []
               else [join '' ''
                       (map (\<lambda>e. format_edge na e (Some (- 1))
                                   (column + int (length (str i)) + 2) ids)
                          (takeWhile (compactable na ids) edges))])
              @ map (\<lambda>e. format_edge na e (Some (- 1)) (column + int (length (str i)) + 2) ids)
                  (if ids = {} then edges else dropWhile (compactable na ids) edges))
         @ '')'')"
proof -
  have "node_column (Some (- 1)) column i = column + int (length (str i)) + 2"
    by (simp add: node_column_def)
  moreover have "joiner (Some (- 1)) (column + int (length (str i)) + 2)
      = newline # replicate (nat (column + int (length (str i)) + 2)) CHR '' ''"
    by (simp add: joiner_def)
  ultimately show ?thesis
    using format_node_layout [of i edges na "Some (- 1)" column ids] by simp
qed

theorem C7_auto_columns_witness:
  "truthy (PStr ''b'')
   \<and> format_node True (PStr ''b'')
       [Edge ''/'' (Atom (PStr ''c'')) [], Edge '':x'' (Atom (PStr ''d'')) []]
       (Some (- 1)) 6 {}
     = ''(b / c'' @ [newline] @ replicate 9 CHR '' '' @ '':x d)''"
  using C7_auto_columns [where i = "PStr ''b''" and na = True and column = 6 and ids = "{}"
      and edges = "[Edge ''/'' (Atom (PStr ''c'')) [], Edge '':x'' (Atom (PStr ''d'')) []]"]
  by (simp add: format_role_def role_epi_def target_epi_def eval_nat_numeral)

section \<open>The compact layout\<close>

text \<open>
  With \<^verbatim>\<open>compact=True\<close>, \<^verbatim>\<open>format\<close> gives \<^verbatim>\<open>_format_node\<close> the identifiers of the
  tree's nodes. When the root has an identifier, it is among them: the set is not empty,
  which is what turns the compact layout on.
\<close>

lemma format_tree_compact_ids:
  "format_tree na t indent True =
     join [newline]
       (map (\<lambda>(key, val). ''# ::'' @ key @ '' '' @ val) (tree_metadata t)
        @ [format_node na (fst (root t)) (snd (root t)) indent 0
             (set (node_ids (fst (root t)) (snd (root t))))])
   \<and> (truthy (fst (root t)) \<longrightarrow> set (node_ids (fst (root t)) (snd (root t))) \<noteq> {})"
  by (cases "fst (root t)") (simp_all add: format_tree_def)

text \<open>
  C6, as stated, fails when the indentation is \<^verbatim>\<open>None\<close>: the joiner is then a single
  space and no line break precedes the third edge.
\<close>

theorem C6_no_indent_counterexample:
  "format_tree True
     \<lparr>root = (PStr ''a'',
        [Edge '':x'' (Atom (PInt 1)) [], Edge '':y'' (Atom (PInt 2)) [],
         Edge '':z'' (Node (PStr ''b'') []) []]),
      tree_metadata = []\<rparr> None True
   = ''(a :x 1 :y 2 :z (b))''
   \<and> newline \<notin> set (format_tree True
     \<lparr>root = (PStr ''a'',
        [Edge '':x'' (Atom (PInt 1)) [], Edge '':y'' (Atom (PInt 2)) [],
         Edge '':z'' (Node (PStr ''b'') []) []]),
      tree_metadata = []\<rparr> None True)"
  by (simp add: format_tree_def format_node.simps format_role_def role_epi_def target_epi_def
      node_column_def joiner_def newline_def str_int_def str_nat.simps digit_char_def)

text \<open>
  C6, amended: when the compact layout is on (the identifier set is not empty, as it is
  under \<^verbatim>\<open>compact=True\<close>), a node's leading run of edges whose targets are atomic and
  are not among the tree's node identifiers is written on one line after the node's
  identifier, its edges separated by single spaces, and from the first edge whose
  target is not atomic or is a node identifier on, every edge is a part of its own,
  the parts being joined by the joiner. The joiner is a line break followed by the
  node's column of spaces when the indentation is not \<^verbatim>\<open>None\<close>, and a single space
  when it is \<^verbatim>\<open>None\<close>. In particular, for a node whose first two edges have atomic
  targets that are not node identifiers and whose third edge has a node as target, the
  first two edges share the first line, and, when the indentation is not \<^verbatim>\<open>None\<close>, a
  line break precedes the third edge and every edge after it.
\<close>

theorem C6_compact_layout:
  assumes "truthy i" and "ids \<noteq> {}"
  shows "(edges \<noteq> [] \<longrightarrow>
          format_node na i edges indent column ids =
            ''('' @ str i @ '' ''
            @ join (joiner indent (node_column indent column i))
                ((if takeWhile (compactable na ids) edges = [] then []
                  else [join '' ''
                          (map (\<lambda>e. format_edge na e indent (node_column indent column i) ids)
                             (takeWhile (compactable na ids) edges))])
                 @ map (\<lambda>e. format_edge na e indent (node_column indent column i) ids)
                     (dropWhile (compactable na ids) edges))
            @ '')'')
       \<and> (compactable na ids e1 \<and> compactable na ids e2 \<and> target e3 = Node j es \<longrightarrow>
          format_node na i (e1 # e2 # e3 # others) indent column ids =
            ''('' @ str i @ '' ''
            @ format_edge na e1 indent (node_column indent column i) ids @ '' ''
            @ format_edge na e2 indent (node_column indent column i) ids
            @ concat (map (\<lambda>e. joiner indent (node_column indent column i)
                                 @ format_edge na e indent (node_column indent column i) ids)
                        (e3 # others))
            @ '')'')
       \<and> joiner (Some k) (node_column (Some k) column i)
           = newline # replicate (nat (node_column (Some k) column i)) CHR '' ''
       \<and> joiner None (node_column None column i) = '' ''"
proof -
  have general: "format_node na i edges indent column ids =
            ''('' @ str i @ '' ''
            @ join (joiner indent (node_column indent column i))
                ((if takeWhile (compactable na ids) edges = [] then []
                  else [join '' ''
                          (map (\<lambda>e. format_edge na e indent (node_column indent column i) ids)
                             (takeWhile (compactable na ids) edges))])
                 @ map (\<lambda>e. format_edge na e indent (node_column indent column i) ids)
                     (dropWhile (compactable na ids) edges))
            @ '')''" if "edges \<noteq> []" for edges
    using format_node_layout [OF assms(1) that, of na indent column ids] assms(2) by simp
  have three: "format_node na i (e1 # e2 # e3 # others) indent column ids =
            ''('' @ str i @ '' ''
            @ format_edge na e1 indent (node_column indent column i) ids @ '' ''
            @ format_edge na e2 indent (node_column indent column i) ids
            @ concat (map (\<lambda>e. joiner indent (node_column indent column i)
                                 @ format_edge na e indent (node_column indent column i) ids)
                        (e3 # others))
            @ '')''"
    if "compactable na ids e1" and "compactable na ids e2" and "target e3 = Node j es"
  proof -
    from that(3) have "\<not> compactable na ids e3"
      by (simp add: compactable_def)
    with that(1,2) show ?thesis
      by (simp add: general join_Cons comp_def)
  qed
  show ?thesis
    using general three by (simp add: joiner_def)
qed

theorem C6_compact_layout_witness:
  "truthy (PStr ''a'') \<and> {PStr ''a'', PStr ''b''} \<noteq> ({} :: pyval set)
   \<and> compactable True {PStr ''a'', PStr ''b''} (Edge '':x'' (Atom (PInt 1)) [])
   \<and> compactable True {PStr ''a'', PStr ''b''} (Edge '':y'' (Atom (PInt 2)) [])
   \<and> format_node True (PStr ''a'')
       [Edge '':x'' (Atom (PInt 1)) [], Edge '':y'' (Atom (PInt 2)) [],
        Edge '':z'' (Node (PStr ''b'') []) []]
       (Some (- 1)) 0 {PStr ''a'', PStr ''b''}
     = ''(a :x 1 :y 2'' @ [newline] @ ''   :z (b))''"
  using C6_compact_layout [where i = "PStr ''a''" and ids = "{PStr ''a'', PStr ''b''}"
      and na = True and indent = "Some (- 1)" and column = 0
      and ?e1.0 = "Edge '':x'' (Atom (PInt 1)) []" and ?e2.0 = "Edge '':y'' (Atom (PInt 2)) []"
      and ?e3.0 = "Edge '':z'' (Node (PStr ''b'') []) []" and j = "PStr ''b''" and es = "[]"
      and others = "[]" and edges = "[]"]
  by (simp add: compactable_def format_role_def role_epi_def target_epi_def
      node_column_def joiner_def format_node.simps str_int_def str_nat.simps digit_char_def
      eval_nat_numeral)

section \<open>The target of an edge\<close>

lemma comments_loop_Cons:
  "comments_loop eof md (t # ts) =
     (if ttype t = ''COMMENT'' then comments_loop eof (comment_loop (ttext t) md) ts
      else Inr (md, t # ts))"
  by (subst comments_loop.simps) (simp add: peek_def next_token_def)

lemma peek_Cons [simp]: "peek eof (t # ts) = Inr t"
  by (simp add: peek_def)

lemma next_token_Cons [simp]: "next_token (t # ts) = Inr (t, ts)"
  by (simp add: next_token_def)

lemma expect_Cons:
  "expect cs (t # ts) =
     (if ttype t \<in> set cs then Inr (t, ts)
      else Inl (DecodeError (''Expected: '' @ join '', '' cs) (Some t)))"
  by (simp add: expect_def)

lemma expect_Nil [simp]: "expect cs [] = Inl (DecodeError ''Unexpected end of input'' None)"
  by (simp add: expect_def)

text \<open>
  C4: after \<^verbatim>\<open>_parse_edge\<close> has consumed the role token \<open>rt\<close> and the role alignment
  (\<open>al\<close> holds the alignment token when there is one), let \<open>nx\<close> be the next token.
  If \<open>nx\<close> is an atom, every edge returned has the atom's value as its target, and an
  edge is returned whenever a token follows the atom. If \<open>nx\<close> is an opening
  parenthesis, the target is the node that \<^verbatim>\<open>_parse_node\<close> parses from there (its error
  is the edge's error). If \<open>nx\<close> is a role or the closing parenthesis, the edge is
  returned with target \<^verbatim>\<open>None\<close> and \<open>nx\<close> is not consumed. For every other type of
  \<open>nx\<close> the syntax error \<^verbatim>\<open>Expected: ATOM, LPAREN\<close> is raised on \<open>nx\<close>. In particular
  the tokens of \<^verbatim>\<open>(a :ARG0 :ARG1 b)\<close> parse to the node \<^verbatim>\<open>a\<close> with two edges, the first
  with target \<^verbatim>\<open>None\<close>, the second with the atom \<^verbatim>\<open>b\<close>.
\<close>

theorem C4_edge_target:
  assumes "ttype rt = ''ROLE''"
    and "al = [] \<and> ttype nx \<noteq> ''ALIGNMENT'' \<or> (\<exists>a. al = [a] \<and> ttype a = ''ALIGNMENT'')"
  shows "(ttype nx \<in> ATOMS \<longrightarrow>
            (\<forall>e r. parse_edge (Suc n) eof (rt # al @ nx # rest) = Inr (e, r) \<longrightarrow>
               e = Edge (ttext rt) (Atom (tvalue nx)) (epidata e))
          \<and> (rest \<noteq> [] \<longrightarrow> (\<exists>e r. parse_edge (Suc n) eof (rt # al @ nx # rest) = Inr (e, r))))
       \<and> (ttype nx = ''LPAREN'' \<longrightarrow>
            parse_edge (Suc n) eof (rt # al @ nx # rest) =
              bind (parse_node n eof (nx # rest)) (\<lambda>((i, es), r).
                Inr (Edge (ttext rt) (Node i es)
                       (map (\<lambda>a. decode_alignment RoleAlignment (ttext a)) al), r)))
       \<and> (ttype nx = ''ROLE'' \<or> ttype nx = ''RPAREN'' \<longrightarrow>
            parse_edge (Suc n) eof (rt # al @ nx # rest) =
              Inr (Edge (ttext rt) (Atom PNone)
                     (map (\<lambda>a. decode_alignment RoleAlignment (ttext a)) al), nx # rest))
       \<and> (ttype nx \<notin> ATOMS \<and> ttype nx \<noteq> ''LPAREN'' \<and> ttype nx \<noteq> ''ROLE''
            \<and> ttype nx \<noteq> ''RPAREN'' \<longrightarrow>
            parse_edge (Suc n) eof (rt # al @ nx # rest) =
              Inl (DecodeError ''Expected: ATOM, LPAREN'' (Some nx)))
       \<and> parse eof [token_of ''LPAREN'' ''('', token_of ''SYMBOL'' ''a'',
                      token_of ''ROLE'' '':ARG0'', token_of ''ROLE'' '':ARG1'',
                      token_of ''SYMBOL'' ''b'', token_of ''RPAREN'' '')'']
           = Inr \<lparr>root = (PStr ''a'', [Edge '':ARG0'' (Atom PNone) [],
                                       Edge '':ARG1'' (Atom (PStr ''b'')) []]),
                  tree_metadata = []\<rparr>"
proof -
  have example: "parse eof [token_of ''LPAREN'' ''('', token_of ''SYMBOL'' ''a'',
                      token_of ''ROLE'' '':ARG0'', token_of ''ROLE'' '':ARG1'',
                      token_of ''SYMBOL'' ''b'', token_of ''RPAREN'' '')'']
           = Inr \<lparr>root = (PStr ''a'', [Edge '':ARG0'' (Atom PNone) [],
                                       Edge '':ARG1'' (Atom (PStr ''b'')) []]),
                  tree_metadata = []\<rparr>"
    by (simp add: parse_def parse_comments_def comments_loop_Cons token_of_def expect_Cons
        eval_nat_numeral IDENTIFIERS_def ATOMS_def)
  from assms(2) show ?thesis
  proof
    assume "al = [] \<and> ttype nx \<noteq> ''ALIGNMENT''"
    with assms(1) example show ?thesis
      by (cases rest) (auto simp: expect_Cons ATOMS_def parse_alignment_def peek_def
          split: option.splits)
  next
    assume "\<exists>a. al = [a] \<and> ttype a = ''ALIGNMENT''"
    then obtain a where "al = [a]" and "ttype a = ''ALIGNMENT''"
      by blast
    with assms(1) example show ?thesis
      by (cases rest) (auto simp: expect_Cons ATOMS_def parse_alignment_def peek_def
          split: option.splits)
  qed
qed

theorem C4_edge_target_witness:
  "ttype (token_of ''ROLE'' '':ARG0'') = ''ROLE''
   \<and> ttype (token_of ''COMMA'' '','') \<noteq> ''ALIGNMENT''
   \<and> ttype (token_of ''ALIGNMENT'' ''~1'') = ''ALIGNMENT''
   \<and> parse_edge (Suc 0) None [token_of ''ROLE'' '':ARG0'', token_of ''COMMA'' '','']
       = Inl (DecodeError ''Expected: ATOM, LPAREN'' (Some (token_of ''COMMA'' '','')))
   \<and> parse_edge (Suc 0) None
         [token_of ''ROLE'' '':ARG0'', token_of ''ALIGNMENT'' ''~1'', token_of ''RPAREN'' '')'']
       = Inr (Edge '':ARG0'' (Atom PNone) [decode_alignment RoleAlignment ''~1''],
              [token_of ''RPAREN'' '')''])"
  using C4_edge_target [where rt = "token_of ''ROLE'' '':ARG0''" and al = "[]"
      and nx = "token_of ''COMMA'' '',''" and rest = "[]" and n = 0 and eof = None]
    C4_edge_target [where rt = "token_of ''ROLE'' '':ARG0''"
      and al = "[token_of ''ALIGNMENT'' ''~1'']"
      and nx = "token_of ''RPAREN'' '')''" and rest = "[]" and n = 0 and eof = None]
  by (simp add: token_of_def ATOMS_def)

section \<open>Metadata\<close>

lemma comment_loop_pairs:
  "comment_loop c md = foldl (\<lambda>d (k, v). dict_set d k v) md (comment_pairs c)"
proof (induction c md rule: comment_loop.induct)
  case (1 comment md)
  show ?case
  proof (cases "comment = []")
    case True
    then show ?thesis
      by (simp add: comment_loop.simps comment_pairs.simps)
  next
    case False
    obtain c' found meta where split: "py_rpartition ''::'' comment = (c', found, meta)"
      by (cases "py_rpartition ''::'' comment") auto
    from False split "1.IH" [OF False split [symmetric] refl] show ?thesis
      by (subst comment_loop.simps, subst comment_pairs.simps)
        (simp split: prod.splits)
  qed
qed

lemma comments_loop_all:
  assumes "\<forall>t\<in>set cs. ttype t = ''COMMENT''" and "ttype nx \<noteq> ''COMMENT''"
  shows "comments_loop eof md (cs @ nx # rest)
           = Inr (foldl (\<lambda>d t. comment_loop (ttext t) d) md cs, nx # rest)"
  using assms by (induction cs arbitrary: md) (simp_all add: comments_loop_Cons)

lemma dict_set_keys:
  "map fst (dict_set d k v) = (if k \<in> set (map fst d) then map fst d else map fst d @ [k])"
  by (induction d) (auto simp: rev_image_eqI)

lemma remdups_snoc: "remdups (ys @ [k]) = remdups (filter (\<lambda>x. x \<noteq> k) ys) @ [k]"
  by (induction ys) auto

lemma first_occurrences_Cons:
  "rev (remdups (rev (k # xs))) = k # rev (remdups (rev (filter (\<lambda>x. x \<noteq> k) xs)))"
  by (simp add: remdups_snoc rev_filter)

lemma dict_set_map_of: "map_of (dict_set d k v) = (map_of d)(k \<mapsto> v)"
  by (induction d) auto

lemma foldl_dict_set_keys:
  "map fst (foldl (\<lambda>d (k, v). dict_set d k v) md kvs)
     = map fst md
       @ rev (remdups (rev (filter (\<lambda>k. k \<notin> set (map fst md)) (map fst kvs))))"
proof (induction kvs arbitrary: md)
  case Nil
  then show ?case by simp
next
  case (Cons kv kvs)
  obtain k v where kv: "kv = (k, v)"
    by (cases kv)
  show ?case
  proof (cases "k \<in> set (map fst md)")
    case True
    with Cons.IH [of "dict_set md k v"] kv show ?thesis
      by (simp add: dict_set_keys)
  next
    case False
    have "filter (\<lambda>x. x \<notin> set (map fst (dict_set md k v))) (map fst kvs)
        = filter (\<lambda>x. x \<noteq> k) (filter (\<lambda>x. x \<notin> set (map fst md)) (map fst kvs))"
      using False by (auto simp: dict_set_keys intro: filter_cong)
    moreover have "rev (remdups (rev (filter (\<lambda>x. x \<notin> set (map fst md)) (map fst (kv # kvs)))))
        = k # rev (remdups (rev (filter (\<lambda>x. x \<noteq> k)
                 (filter (\<lambda>x. x \<notin> set (map fst md)) (map fst kvs)))))"
      using False kv first_occurrences_Cons [of k "filter (\<lambda>x. x \<notin> set (map fst md)) (map fst kvs)"]
      by simp
    moreover have "map fst (dict_set md k v) = map fst md @ [k]"
      using False by (simp add: dict_set_keys)
    ultimately show ?thesis
      using Cons.IH [of "dict_set md k v"] kv by (simp del: filter_filter)
  qed
qed

lemma foldl_dict_set_map_of:
  "map_of (foldl (\<lambda>d (k, v). dict_set d k v) md kvs) = map_of (rev kvs @ md)"
proof (induction kvs arbitrary: md)
  case Nil
  then show ?case by simp
next
  case (Cons kv kvs)
  obtain k v where kv: "kv = (k, v)"
    by (cases kv)
  have "map_of (rev kvs @ dict_set md k v) = map_of (rev kvs @ (k, v) # md)"
    by (simp add: map_of_append dict_set_map_of)
  with Cons.IH [of "dict_set md k v"] kv show ?case
    by simp
qed

lemma foldl_comment_loop:
  "foldl (\<lambda>d t. comment_loop (ttext t) d) md cs
     = foldl (\<lambda>d (k, v). dict_set d k v) md (concat (map (\<lambda>t. comment_pairs (ttext t)) cs))"
  by (induction cs arbitrary: md) (simp_all add: comment_loop_pairs)

lemma py_rpartition_none: "CHR '':'' \<notin> set b \<Longrightarrow> py_rpartition ''::'' b = ([], [], b)"
  by (induction b) auto

lemma py_rpartition_last:
  "CHR '':'' \<notin> set b \<Longrightarrow> py_rpartition ''::'' (a @ ''::'' @ b) = (a, ''::'', b)"
proof (induction a)
  case Nil
  then show ?case
    by (cases b) (auto simp: py_rpartition_none)
next
  case (Cons x a)
  then show ?case by simp
qed

lemma py_partition_space:
  "CHR '' '' \<notin> set k \<Longrightarrow> py_partition '' '' (k @ CHR '' '' # v) = (k, '' '', v)"
  by (induction k) auto

lemma comment_pairs_last:
  assumes "CHR '':'' \<notin> set key" and "CHR '' '' \<notin> set key" and "CHR '':'' \<notin> set val"
  shows "comment_pairs (c @ ''::'' @ key @ '' '' @ val) = (key, val) # comment_pairs c"
proof -
  from assms have "py_rpartition ''::'' (c @ ''::'' @ (key @ '' '' @ val))
      = (c, ''::'', key @ '' '' @ val)"
    by (intro py_rpartition_last) simp
  with assms(2) show ?thesis
    by (subst comment_pairs.simps) (simp add: py_partition_space)
qed

lemma comment_pairs_none: "CHR '':'' \<notin> set c \<Longrightarrow> comment_pairs c = []"
  by (subst comment_pairs.simps, simp add: py_rpartition_none, subst comment_pairs.simps, simp)

text \<open>
  C5, as stated, fails for a comment that holds several pairs: its pairs are stored
  from the last to the first, so the keys of \<^verbatim>\<open># ::a 1 ::b 2\<close> are listed \<^verbatim>\<open>b\<close>
  before \<^verbatim>\<open>a\<close>, against their order in the document.
\<close>

theorem C5_packed_comment_counterexample:
  "parse_comments None [token_of ''COMMENT'' ''# ::a 1 ::b 2'', token_of ''LPAREN'' ''('']
     = Inr ([(''b'', ''2''), (''a'', ''1 '')], [token_of ''LPAREN'' ''(''])"
  by code_simp

text \<open>
  C5, amended: the leading comment tokens are taken in document order, and the pairs of
  one comment from its last \<^verbatim>\<open>::\<close> to its first (\<open>comment_pairs\<close>); each pair is
  stored by a dictionary assignment. So the metadata lists its keys in the order in
  which they were first stored, and holds for each key the value stored last: a later
  duplicate overwrites the value and the key keeps its first position. For comments
  of one pair each this is the document order; e.g. the comments \<^verbatim>\<open># ::id 1\<close>,
  \<^verbatim>\<open># ::date 2020\<close>, \<^verbatim>\<open># ::id 3\<close> give \<^verbatim>\<open>{id: "3", date: "2020"}\<close> with \<^verbatim>\<open>id\<close> before
  \<^verbatim>\<open>date\<close>.
\<close>

theorem C5_metadata_order:
  assumes "\<forall>t\<in>set cs. ttype t = ''COMMENT''" and "ttype nx \<noteq> ''COMMENT''"
  shows "parse_comments eof (cs @ nx # rest)
           = Inr (foldl (\<lambda>d (k, v). dict_set d k v) []
                    (concat (map (\<lambda>t. comment_pairs (ttext t)) cs)), nx # rest)
       \<and> map fst (foldl (\<lambda>d (k, v). dict_set d k v) []
                    (concat (map (\<lambda>t. comment_pairs (ttext t)) cs)))
           = rev (remdups (rev (map fst (concat (map (\<lambda>t. comment_pairs (ttext t)) cs)))))
       \<and> map_of (foldl (\<lambda>d (k, v). dict_set d k v) []
                    (concat (map (\<lambda>t. comment_pairs (ttext t)) cs)))
           = map_of (rev (concat (map (\<lambda>t. comment_pairs (ttext t)) cs)))
       \<and> (CHR '':'' \<notin> set key \<and> CHR '' '' \<notin> set key \<and> CHR '':'' \<notin> set val \<longrightarrow>
            comment_pairs (c @ ''::'' @ key @ '' '' @ val) = (key, val) # comment_pairs c)
       \<and> (CHR '':'' \<notin> set c \<longrightarrow> comment_pairs c = [])
       \<and> parse_comments eof
             [token_of ''COMMENT'' ''# ::id 1'', token_of ''COMMENT'' ''# ::date 2020'',
              token_of ''COMMENT'' ''# ::id 3'', token_of ''LPAREN'' ''('']
           = Inr ([(''id'', ''3''), (''date'', ''2020'')], [token_of ''LPAREN'' ''(''])"
proof -
  have c1: "comment_loop ''# ::id 1'' [] = [(''id'', ''1'')]"
    by code_simp
  have c2: "comment_loop ''# ::date 2020'' [(''id'', ''1'')] = [(''id'', ''1''), (''date'', ''2020'')]"
    by code_simp
  have c3: "comment_loop ''# ::id 3'' [(''id'', ''1''), (''date'', ''2020'')]
      = [(''id'', ''3''), (''date'', ''2020'')]"
    by code_simp
  have example: "parse_comments eof
             [token_of ''COMMENT'' ''# ::id 1'', token_of ''COMMENT'' ''# ::date 2020'',
              token_of ''COMMENT'' ''# ::id 3'', token_of ''LPAREN'' ''('']
           = Inr ([(''id'', ''3''), (''date'', ''2020'')], [token_of ''LPAREN'' ''(''])"
    by (simp add: parse_comments_def comments_loop_Cons token_of_def c1 c2 c3)
  have "parse_comments eof (cs @ nx # rest)
           = Inr (foldl (\<lambda>d (k, v). dict_set d k v) []
                    (concat (map (\<lambda>t. comment_pairs (ttext t)) cs)), nx # rest)"
    using assms by (simp add: parse_comments_def comments_loop_all foldl_comment_loop)
  moreover have "map fst (foldl (\<lambda>d (k, v). dict_set d k v) []
                    (concat (map (\<lambda>t. comment_pairs (ttext t)) cs)))
           = rev (remdups (rev (map fst (concat (map (\<lambda>t. comment_pairs (ttext t)) cs)))))"
    using foldl_dict_set_keys [of "[]"] by simp
  moreover have "map_of (foldl (\<lambda>d (k, v). dict_set d k v) []
                    (concat (map (\<lambda>t. comment_pairs (ttext t)) cs)))
           = map_of (rev (concat (map (\<lambda>t. comment_pairs (ttext t)) cs)))"
    using foldl_dict_set_map_of [of "[]"] by simp
  ultimately show ?thesis
    using example comment_pairs_last [of key val c] comment_pairs_none [of c] by blast
qed

theorem C5_metadata_order_witness:
  "ttype (token_of ''COMMENT'' ''# ::a 1 ::b 2'') = ''COMMENT''
   \<and> ttype (token_of ''LPAREN'' ''('') \<noteq> ''COMMENT''
   \<and> parse_comments None [token_of ''COMMENT'' ''# ::a 1 ::b 2'', token_of ''LPAREN'' ''('']
       = Inr (foldl (\<lambda>d (k, v). dict_set d k v) []
                (comment_pairs ''# ::a 1 ::b 2''), [token_of ''LPAREN'' ''(''])
   \<and> comment_pairs (''# ::a 1 '' @ ''::'' @ ''b'' @ '' '' @ ''2'')
       = (''b'', ''2'') # comment_pairs ''# ::a 1 ''"
  using C5_metadata_order [where cs = "[token_of ''COMMENT'' ''# ::a 1 ::b 2'']"
      and nx = "token_of ''LPAREN'' ''(''" and rest = "[]" and eof = None
      and key = "''b''" and val = "''2''" and c = "''# ::a 1 ''"]
  by (simp add: token_of_def)

section \<open>Triples\<close>

lemma peek_Nil: "peek eof [] = (case eof of Some t \<Rightarrow> Inr t
    | None \<Rightarrow> Inl (DecodeError ''Unexpected end of input'' None))"
  by (simp add: peek_def)

text \<open>
  On every such token list the last \<^verbatim>\<open>peek\<close> of the loop meets the end of the input:
  with the iterator's raising \<^verbatim>\<open>peek\<close>, \<^verbatim>\<open>parse_triples\<close> returns no triples for any
  well-formed conjunction.
\<close>

lemma triples_loop_end_of_input:
  "triple_conjunction ts \<Longrightarrow>
   triples_loop None tgt acc ts = Inl (DecodeError ''Unexpected end of input'' None)"
proof (induction ts arbitrary: tgt acc rule: triple_conjunction.induct)
  case (1 r l s c rest)
  then show ?case
    by (subst triples_loop.simps)
      (auto simp: expect_Cons IDENTIFIERS_def ATOMS_def peek_Nil split: list.splits if_splits)
qed simp_all

lemma parse_triples_end_of_input:
  "triple_conjunction ts \<Longrightarrow>
   parse_triples None ts = Inl (DecodeError ''Unexpected end of input'' None)"
  by (simp add: parse_triples_def triples_loop_end_of_input)

lemma triple_conjunction_bark_tokens: "triple_conjunction bark_tokens"
  by (simp add: bark_tokens_def token_of_def ATOMS_def)

text \<open>
  C8: \<^verbatim>\<open>parse_triples\<close> on \<^verbatim>\<open>instance(b, bark) ^ ARG1(b, d)\<close> should return the
  triples \<^verbatim>\<open>(b, instance, bark)\<close> and \<^verbatim>\<open>(b, ARG1, d)\<close> in this order, and
  \<^verbatim>\<open>format_triples\<close> in single-line mode should write them as the same string. The
  second half holds. The first does not: after the last closing parenthesis the loop
  of \<^verbatim>\<open>parse_triples\<close> asks \<^verbatim>\<open>tokens.peek().type == 'CARET'\<close> with no token left,
  and \<^verbatim>\<open>peek\<close> raises \<^verbatim>\<open>Unexpected end of input\<close>: the call returns no triples, for
  these tokens as for every well-formed conjunction.
\<close>

theorem C8_triples_end_of_input:
  "parse_triples None bark_tokens = Inl (DecodeError ''Unexpected end of input'' None)
   \<and> (triple_conjunction ts \<longrightarrow>
        parse_triples None ts = Inl (DecodeError ''Unexpected end of input'' None))
   \<and> format_triples [(''b'', ''instance'', PStr ''bark''), (''b'', ''ARG1'', PStr ''d'')] False
       = ''instance(b, bark) ^ ARG1(b, d)''"
  using parse_triples_end_of_input [of ts] parse_triples_end_of_input [OF triple_conjunction_bark_tokens]
  by (simp add: format_triples_def)

theorem C8_triples_end_of_input_witness:
  "triple_conjunction
     [token_of ''SYMBOL'' ''instance'', token_of ''LPAREN'' ''('', token_of ''SYMBOL'' ''h'',
      token_of ''COMMA'' '','', token_of ''SYMBOL'' ''hi'', token_of ''RPAREN'' '')'']
   \<and> parse_triples None
     [token_of ''SYMBOL'' ''instance'', token_of ''LPAREN'' ''('', token_of ''SYMBOL'' ''h'',
      token_of ''COMMA'' '','', token_of ''SYMBOL'' ''hi'', token_of ''RPAREN'' '')'']
     = Inl (DecodeError ''Unexpected end of input'' None)"
  using C8_triples_end_of_input [of
      "[token_of ''SYMBOL'' ''instance'', token_of ''LPAREN'' ''('', token_of ''SYMBOL'' ''h'',
        token_of ''COMMA'' '','', token_of ''SYMBOL'' ''hi'', token_of ''RPAREN'' '')'']"]
  by (simp add: token_of_def ATOMS_def)

text \<open>
  The loop itself reads the two triples: were a token that is not a caret answered
  after the last closing parenthesis, they would be returned.
\<close>

lemma parse_triples_end_token:
  assumes "ttype t \<noteq> ''CARET''"
  shows "parse_triples (Some t) bark_tokens
           = Inr [(''b'', ''instance'', PStr ''bark''), (''b'', ''ARG1'', PStr ''d'')]"
  using assms
  by (simp add: parse_triples_def bark_tokens_def triples_loop.simps [of _ _ _ "_ # _"]
      token_of_def expect_Cons IDENTIFIERS_def ATOMS_def peek_Nil)

section \<open>The markers of a parsed tree\<close>

lemma bind_Inr_iff: "bind m f = Inr y \<longleftrightarrow> (\<exists>x. m = Inr x \<and> f x = Inr y)"
  by (cases m) auto

lemma expect_Inr_iff: "expect cs ts = Inr (t, rest) \<longleftrightarrow> ts = t # rest \<and> ttype t \<in> set cs"
  by (cases ts) (auto simp: expect_Cons)

lemma next_token_Inr_iff: "next_token ts = Inr (t, rest) \<longleftrightarrow> ts = t # rest"
  by (cases ts) (auto simp: next_token_def)

lemma parse_alignment_Inr_iff:
  "parse_alignment k ts = Inr (m, rest) \<longleftrightarrow>
     (\<exists>t. ts = t # rest \<and> ttype t = ''ALIGNMENT'' \<and> m = decode_alignment k (ttext t))"
  by (cases ts) (auto simp: parse_alignment_def expect_Cons)

lemma cls_decode_alignment [simp]: "cls (decode_alignment k s) = k"
  by (simp add: decode_alignment_def split: option.splits)

lemma decoded_from_mono: "decoded_from ts' m \<Longrightarrow> set ts' \<subseteq> set ts \<Longrightarrow> decoded_from ts m"
  by (auto simp: decoded_from_def)

lemma decoded_from_token:
  "t \<in> set ts \<Longrightarrow> ttype t = ''ALIGNMENT'' \<Longrightarrow> decoded_from ts (decode_alignment k (ttext t))"
  by (auto simp: decoded_from_def)

lemma optional_alignment:
  assumes "(if ttype p = ''ALIGNMENT''
            then bind (parse_alignment k ts) (\<lambda>(m, ts'). Inr ([m], ts'))
            else Inr ([], ts)) = Inr (epis, rest)"
  shows "set rest \<subseteq> set ts \<and> length rest \<le> length ts \<and> (\<forall>m\<in>set epis. decoded_from ts m)"
  using assms
  by (auto simp: bind_Inr_iff parse_alignment_Inr_iff decoded_from_token split: if_splits)

lemma parse_node_label_invariant:
  assumes "parse_node_label eof ts = Inr (e, rest)"
  shows "set rest \<subseteq> set ts \<and> length rest < length ts
       \<and> (\<forall>m\<in>set (edge_markers e). decoded_from ts m)"
  using assms
  by (auto simp: bind_Inr_iff expect_Inr_iff next_token_Inr_iff parse_alignment_Inr_iff
      decoded_from_token split: if_splits)

lemma optional_label:
  assumes "(if ttype p = ''SLASH''
            then bind (parse_node_label eof ts) (\<lambda>(e, ts'). Inr ([e], ts'))
            else Inr ([], ts)) = Inr (es, rest)"
  shows "set rest \<subseteq> set ts \<and> length rest \<le> length ts
       \<and> (\<forall>m\<in>set (concat (map edge_markers es)). decoded_from ts m)"
proof (cases "ttype p = ''SLASH''")
  case True
  with assms obtain e where "parse_node_label eof ts = Inr (e, rest)" and "es = [e]"
    by (auto simp: bind_Inr_iff)
  with parse_node_label_invariant [of eof ts e rest] show ?thesis
    by simp
next
  case False
  with assms show ?thesis by simp
qed

text \<open>
  What a successful call of the parser returns: the rest of the stream is what the call
  did not consume, a node and an edge consume at least one token, and every marker of
  the result is the decoding of an alignment token of the stream.
\<close>

lemma parse_invariant:
  "parse_node n eof ts = Inr (nd, rest) \<Longrightarrow>
     set rest \<subseteq> set ts \<and> length rest < length ts
     \<and> (\<forall>m\<in>set (node_markers (fst nd) (snd nd)). decoded_from ts m)"
  "parse_edges n eof acc ts = Inr (es, rest) \<Longrightarrow>
     set rest \<subseteq> set ts \<and> length rest \<le> length ts
     \<and> (\<forall>m\<in>set (concat (map edge_markers es)).
           m \<in> set (concat (map edge_markers acc)) \<or> decoded_from ts m)"
  "parse_edge n eof ts = Inr (e, rest) \<Longrightarrow>
     set rest \<subseteq> set ts \<and> length rest < length ts
     \<and> (\<forall>m\<in>set (edge_markers e). decoded_from ts m)"
proof (induction n eof ts and n eof acc ts and n eof ts
    arbitrary: nd rest and es rest and e rest
    rule: parse_node_parse_edges_parse_edge.induct)
  case (1 eof ts)
  then show ?case by simp
next
  case (2 n eof ts)
  from "2.prems" obtain lp ts1 p
    where lp: "expect [''LPAREN''] ts = Inr (lp, ts1)" and p: "peek eof ts1 = Inr p"
      and body: "(if ttype p \<noteq> ''RPAREN'' then
         bind (expect IDENTIFIERS ts1) (\<lambda>(it, ts2).
         bind (peek eof ts2) (\<lambda>p2.
         bind (if ttype p2 = ''SLASH'' then
                 bind (parse_node_label eof ts2) (\<lambda>(e, ts3). Inr ([e], ts3))
               else Inr ([], ts2)) (\<lambda>(edges, ts3).
         bind (parse_edges n eof edges ts3) (\<lambda>(edges', ts4).
         bind (expect [''RPAREN''] ts4) (\<lambda>(_, ts5).
           Inr ((tvalue it, edges'), ts5))))))
       else
         bind (expect [''RPAREN''] ts1) (\<lambda>(_, ts2).
           Inr ((PNone, []), ts2))) = Inr (nd, rest)"
    by (auto simp: bind_Inr_iff)
  from lp have ts: "ts = lp # ts1"
    by (simp add: expect_Inr_iff)
  show ?case
  proof (cases "ttype p = ''RPAREN''")
    case True
    with body ts show ?thesis
      by (auto simp: bind_Inr_iff expect_Inr_iff)
  next
    case False
    with body obtain it ts2 p2 edges ts3 edges' ts4 rp
      where it: "expect IDENTIFIERS ts1 = Inr (it, ts2)" and p2: "peek eof ts2 = Inr p2"
        and label: "(if ttype p2 = ''SLASH'' then
                 bind (parse_node_label eof ts2) (\<lambda>(e, ts3). Inr ([e], ts3))
               else Inr ([], ts2)) = Inr (edges, ts3)"
        and edges: "parse_edges n eof edges ts3 = Inr (edges', ts4)"
        and rp: "expect [''RPAREN''] ts4 = Inr (rp, rest)"
        and nd: "nd = (tvalue it, edges')"
      by (auto simp: bind_Inr_iff)
    from it rp have ts1: "ts1 = it # ts2" and ts4: "ts4 = rp # rest"
      by (simp_all add: expect_Inr_iff)
    note lab = optional_label [OF label]
    note loop = "2.IH" [OF lp refl p False it refl p2 label refl edges]
    have "set rest \<subseteq> set ts" and "length rest < length ts"
      using ts ts1 ts4 lab loop by auto
    moreover have "decoded_from ts m" if "m \<in> set (concat (map edge_markers edges'))" for m
    proof -
      from loop that have "m \<in> set (concat (map edge_markers edges)) \<or> decoded_from ts3 m"
        by blast
      then show ?thesis
      proof
        assume "m \<in> set (concat (map edge_markers edges))"
        with lab have "decoded_from ts2 m" by blast
        then show ?thesis
          by (rule decoded_from_mono) (use ts ts1 in auto)
      next
        assume "decoded_from ts3 m"
        then show ?thesis
          by (rule decoded_from_mono) (use ts ts1 lab in auto)
      qed
    qed
    ultimately show ?thesis
      using nd by simp
  qed
next
  case (3 eof edges ts)
  then show ?case by simp
next
  case (4 n eof edges ts)
  from "4.prems" obtain p
    where p: "peek eof ts = Inr p"
      and body: "(if ttype p \<noteq> ''RPAREN'' then
         bind (parse_edge n eof ts) (\<lambda>(e, ts1).
           parse_edges n eof (edges @ [e]) ts1)
       else Inr (edges, ts)) = Inr (es, rest)"
    by (auto simp: bind_Inr_iff)
  show ?case
  proof (cases "ttype p = ''RPAREN''")
    case True
    with body show ?thesis by auto
  next
    case False
    with body obtain e ts1
      where e: "parse_edge n eof ts = Inr (e, ts1)"
        and more: "parse_edges n eof (edges @ [e]) ts1 = Inr (es, rest)"
      by (auto simp: bind_Inr_iff)
    note one = "4.IH"(1) [OF p False e]
    note loop = "4.IH"(2) [OF p False e refl more]
    have "set rest \<subseteq> set ts" and "length rest \<le> length ts"
      using one loop by auto
    moreover have "m \<in> set (concat (map edge_markers edges)) \<or> decoded_from ts m"
      if "m \<in> set (concat (map edge_markers es))" for m
    proof -
      from loop that
      have "m \<in> set (concat (map edge_markers (edges @ [e]))) \<or> decoded_from ts1 m"
        by blast
      then consider "m \<in> set (concat (map edge_markers edges))" | "m \<in> set (edge_markers e)"
        | "decoded_from ts1 m"
        by auto
      then show ?thesis
      proof cases
        case 1
        then show ?thesis by simp
      next
        case 2
        with one show ?thesis by blast
      next
        case 3
        then have "decoded_from ts m"
          by (rule decoded_from_mono) (use one in auto)
        then show ?thesis by simp
      qed
    qed
    ultimately show ?thesis by blast
  qed
next
  case (5 eof ts)
  then show ?case by simp
next
  case (6 n eof ts)
  from "6.prems" obtain rt ts1 p epis ts2 nx
    where rt: "expect [''ROLE''] ts = Inr (rt, ts1)" and p: "peek eof ts1 = Inr p"
      and al: "(if ttype p = ''ALIGNMENT'' then
             bind (parse_alignment RoleAlignment ts1) (\<lambda>(m, ts2). Inr ([m], ts2))
           else Inr ([], ts1)) = Inr (epis, ts2)"
      and nx: "peek eof ts2 = Inr nx"
      and body: "(if ttype nx \<in> ATOMS then
         bind (next_token ts2) (\<lambda>(tt, ts3).
         bind (peek eof ts3) (\<lambda>p3.
           if ttype p3 = ''ALIGNMENT'' then
             bind (parse_alignment Alignment ts3) (\<lambda>(m, ts4).
               Inr (Edge (ttext rt) (Atom (tvalue tt)) (epis @ [m]), ts4))
           else Inr (Edge (ttext rt) (Atom (tvalue tt)) epis, ts3)))
       else if ttype nx = ''LPAREN'' then
         bind (parse_node n eof ts2) (\<lambda>((i, es), ts3).
           Inr (Edge (ttext rt) (Node i es) epis, ts3))
       else if ttype nx \<notin> {''ROLE'', ''RPAREN''} then
         Inl (DecodeError ''Expected: ATOM, LPAREN'' (Some nx))
       else Inr (Edge (ttext rt) (Atom PNone) epis, ts2)) = Inr (e, rest)"
    by (auto simp: bind_Inr_iff)
  from rt have ts: "ts = rt # ts1"
    by (simp add: expect_Inr_iff)
  note role = optional_alignment [OF al]
  have epis: "decoded_from ts m" if "m \<in> set epis" for m
  proof -
    from role that have "decoded_from ts1 m" by blast
    then show ?thesis
      by (rule decoded_from_mono) (use ts in auto)
  qed
  consider (atom) "ttype nx \<in> ATOMS"
    | (node) "ttype nx \<notin> ATOMS" "ttype nx = ''LPAREN''"
    | (dangling) "ttype nx \<notin> ATOMS" "ttype nx \<noteq> ''LPAREN''"
    by blast
  then show ?case
  proof cases
    case atom
    with body have "bind (next_token ts2) (\<lambda>(tt, ts3).
         bind (peek eof ts3) (\<lambda>p3.
           if ttype p3 = ''ALIGNMENT'' then
             bind (parse_alignment Alignment ts3) (\<lambda>(m, ts4).
               Inr (Edge (ttext rt) (Atom (tvalue tt)) (epis @ [m]), ts4))
           else Inr (Edge (ttext rt) (Atom (tvalue tt)) epis, ts3))) = Inr (e, rest)"
      by simp
    then obtain x where x: "next_token ts2 = Inr x"
      and after: "(case x of (tt, ts3) \<Rightarrow>
         bind (peek eof ts3) (\<lambda>p3.
           if ttype p3 = ''ALIGNMENT'' then
             bind (parse_alignment Alignment ts3) (\<lambda>(m, ts4).
               Inr (Edge (ttext rt) (Atom (tvalue tt)) (epis @ [m]), ts4))
           else Inr (Edge (ttext rt) (Atom (tvalue tt)) epis, ts3))) = Inr (e, rest)"
      unfolding bind_Inr_iff by blast
    obtain tt ts3 where xeq: "x = (tt, ts3)"
      by (cases x)
    with x have tt: "next_token ts2 = Inr (tt, ts3)"
      by simp
    from after xeq have "bind (peek eof ts3) (\<lambda>p3.
           if ttype p3 = ''ALIGNMENT'' then
             bind (parse_alignment Alignment ts3) (\<lambda>(m, ts4).
               Inr (Edge (ttext rt) (Atom (tvalue tt)) (epis @ [m]), ts4))
           else Inr (Edge (ttext rt) (Atom (tvalue tt)) epis, ts3)) = Inr (e, rest)"
      by simp
    then obtain p3
      where "peek eof ts3 = Inr p3 \<and>
          (if ttype p3 = ''ALIGNMENT'' then
             bind (parse_alignment Alignment ts3) (\<lambda>(m, ts4).
               Inr (Edge (ttext rt) (Atom (tvalue tt)) (epis @ [m]), ts4))
           else Inr (Edge (ttext rt) (Atom (tvalue tt)) epis, ts3)) = Inr (e, rest)"
      unfolding bind_Inr_iff ..
    then have tail: "(if ttype p3 = ''ALIGNMENT'' then
             bind (parse_alignment Alignment ts3) (\<lambda>(m, ts4).
               Inr (Edge (ttext rt) (Atom (tvalue tt)) (epis @ [m]), ts4))
           else Inr (Edge (ttext rt) (Atom (tvalue tt)) epis, ts3)) = Inr (e, rest)"
      by (rule conjunct2)
    from tt have ts2: "ts2 = tt # ts3"
      by (simp add: next_token_Inr_iff)
    show ?thesis
    proof (cases "ttype p3 = ''ALIGNMENT''")
      case True
      with tail obtain a
        where ts3: "ts3 = a # rest" and a: "ttype a = ''ALIGNMENT''"
          and e: "e = Edge (ttext rt) (Atom (tvalue tt))
                       (epis @ [decode_alignment Alignment (ttext a)])"
        by (auto simp: bind_Inr_iff parse_alignment_Inr_iff)
      have "a \<in> set ts"
        using ts ts2 ts3 role by auto
      then have "decoded_from ts (decode_alignment Alignment (ttext a))"
        using a by (rule decoded_from_token)
      then show ?thesis
        using ts ts2 ts3 role e epis by auto
    next
      case False
      with tail show ?thesis
        using ts ts2 role epis by auto
    qed
  next
    case node
    with body obtain i es ts3
      where sub: "parse_node n eof ts2 = Inr ((i, es), ts3)"
        and e: "e = Edge (ttext rt) (Node i es) epis" and rest: "rest = ts3"
      by (auto simp: bind_Inr_iff)
    note inner = "6.IH" [OF rt refl p al refl nx node sub]
    have "decoded_from ts m" if "m \<in> set (node_markers i es)" for m
    proof -
      from inner that have "decoded_from ts2 m" by auto
      then show ?thesis
        by (rule decoded_from_mono) (use ts role in auto)
    qed
    then show ?thesis
      using ts role inner e rest epis by auto
  next
    case dangling
    with body show ?thesis
      using ts role epis by (auto split: if_splits)
  qed
qed




lemma prefix_decode_alignment:
  "alignment_match s = None \<Longrightarrow> prefix (decode_alignment k s) = None"
  by (simp add: decode_alignment_def)

lemma decode_alignment_unmatched:
  "alignment_match s = None \<Longrightarrow> decode_alignment k s = \<lparr>cls = k, indices = [], prefix = None\<rparr>"
  by (simp add: decode_alignment_def)





section \<open>The fuel of the parser is enough\<close>

lemma bind_Fuel_iff:
  "bind m f = Inl Fuel \<longleftrightarrow> m = Inl Fuel \<or> (\<exists>x. m = Inr x \<and> f x = Inl Fuel)"
  by (cases m) auto

lemma expect_no_Fuel [simp]: "expect cs ts \<noteq> Inl Fuel"
  by (simp add: expect_def split: list.splits)

lemma peek_no_Fuel [simp]: "peek eof ts \<noteq> Inl Fuel"
  by (simp add: peek_def split: list.splits option.splits)

lemma next_token_no_Fuel [simp]: "next_token ts \<noteq> Inl Fuel"
  by (simp add: next_token_def split: list.splits)

lemma parse_alignment_no_Fuel [simp]: "parse_alignment k ts \<noteq> Inl Fuel"
  by (simp add: parse_alignment_def bind_Fuel_iff split: prod.splits)

lemma parse_node_label_no_Fuel [simp]: "parse_node_label eof ts \<noteq> Inl Fuel"
  by (auto simp: bind_Fuel_iff split: prod.splits)

lemma comments_loop_no_Fuel: "comments_loop eof md ts \<noteq> Inl Fuel"
proof (induction ts arbitrary: md)
  case Nil
  show ?case
    by (subst comments_loop.simps) (auto simp: bind_Fuel_iff next_token_def)
next
  case (Cons t ts)
  then show ?case
    by (simp add: comments_loop_Cons)
qed

text \<open>
  Every call of the parser consumes a token before it calls the parser again, so a fuel
  of three times the number of tokens (and one or two more) is never used up.
\<close>

lemma parse_fuel:
  "3 * length ts + 1 \<le> n \<Longrightarrow> parse_node n eof ts \<noteq> Inl Fuel"
  "3 * length ts + 2 \<le> n \<Longrightarrow> parse_edges n eof acc ts \<noteq> Inl Fuel"
  "3 * length ts + 1 \<le> n \<Longrightarrow> parse_edge n eof ts \<noteq> Inl Fuel"
proof (induction n eof ts and n eof acc ts and n eof ts
    rule: parse_node_parse_edges_parse_edge.induct)
  case (1 eof ts)
  then show ?case by simp
next
  case (2 n eof ts)
  show ?case
  proof
    assume "parse_node (Suc n) eof ts = Inl Fuel"
    then obtain lp ts1 p
      where lp: "expect [''LPAREN''] ts = Inr (lp, ts1)" and p: "peek eof ts1 = Inr p"
        and body: "(if ttype p \<noteq> ''RPAREN'' then
         bind (expect IDENTIFIERS ts1) (\<lambda>(it, ts2).
         bind (peek eof ts2) (\<lambda>p2.
         bind (if ttype p2 = ''SLASH'' then
                 bind (parse_node_label eof ts2) (\<lambda>(e, ts3). Inr ([e], ts3))
               else Inr ([], ts2)) (\<lambda>(edges, ts3).
         bind (parse_edges n eof edges ts3) (\<lambda>(edges', ts4).
         bind (expect [''RPAREN''] ts4) (\<lambda>(_, ts5).
           Inr ((tvalue it, edges'), ts5))))))
       else
         bind (expect [''RPAREN''] ts1) (\<lambda>(_, ts2).
           Inr ((PNone, []), ts2))) = Inl Fuel"
      by (auto simp: bind_Fuel_iff simp del: parse_node_label.simps)
    from body have not_rp: "ttype p \<noteq> ''RPAREN''"
      by (auto simp: bind_Fuel_iff split: if_splits)
    with body obtain it ts2 p2
      where it: "expect IDENTIFIERS ts1 = Inr (it, ts2)" and p2: "peek eof ts2 = Inr p2"
        and body2: "bind (if ttype p2 = ''SLASH'' then
                 bind (parse_node_label eof ts2) (\<lambda>(e, ts3). Inr ([e], ts3))
               else Inr ([], ts2)) (\<lambda>(edges, ts3).
         bind (parse_edges n eof edges ts3) (\<lambda>(edges', ts4).
         bind (expect [''RPAREN''] ts4) (\<lambda>(_, ts5).
           Inr ((tvalue it, edges'), ts5)))) = Inl Fuel"
      by (auto simp: bind_Fuel_iff simp del: parse_node_label.simps)
    have "(if ttype p2 = ''SLASH'' then
                 bind (parse_node_label eof ts2) (\<lambda>(e, ts3). Inr ([e], ts3))
               else Inr ([], ts2)) \<noteq> Inl Fuel"
      by (auto simp: bind_Fuel_iff simp del: parse_node_label.simps split: prod.splits)
    with body2 obtain x
      where x: "(if ttype p2 = ''SLASH'' then
                 bind (parse_node_label eof ts2) (\<lambda>(e, ts3). Inr ([e], ts3))
               else Inr ([], ts2)) = Inr x"
        and body3: "(case x of (edges, ts3) \<Rightarrow>
         bind (parse_edges n eof edges ts3) (\<lambda>(edges', ts4).
         bind (expect [''RPAREN''] ts4) (\<lambda>(_, ts5).
           Inr ((tvalue it, edges'), ts5)))) = Inl Fuel"
      unfolding bind_Fuel_iff by blast
    obtain edges ts3 where xeq: "x = (edges, ts3)"
      by (cases x)
    from x xeq have label: "(if ttype p2 = ''SLASH'' then
                 bind (parse_node_label eof ts2) (\<lambda>(e, ts3). Inr ([e], ts3))
               else Inr ([], ts2)) = Inr (edges, ts3)"
      by simp
    from body3 xeq have fuel: "parse_edges n eof edges ts3 = Inl Fuel"
      by (auto simp: bind_Fuel_iff split: prod.splits)
    from lp it have "length ts = Suc (Suc (length ts2))"
      by (auto simp: expect_Inr_iff)
    moreover from optional_label [OF label] have "length ts3 \<le> length ts2"
      by simp
    ultimately have "3 * length ts3 + 2 \<le> n"
      using "2.prems" by simp
    from "2.IH" [OF lp refl p not_rp it refl p2 label refl this] fuel show False
      by simp
  qed
next
  case (3 eof edges ts)
  then show ?case by simp
next
  case (4 n eof edges ts)
  show ?case
  proof
    assume "parse_edges (Suc n) eof edges ts = Inl Fuel"
    then obtain p where p: "peek eof ts = Inr p" and not_rp: "ttype p \<noteq> ''RPAREN''"
      and fuel: "parse_edge n eof ts = Inl Fuel
        \<or> (\<exists>e ts1. parse_edge n eof ts = Inr (e, ts1)
              \<and> parse_edges n eof (edges @ [e]) ts1 = Inl Fuel)"
      by (auto simp: bind_Fuel_iff split: if_splits)
    from fuel show False
    proof
      assume "parse_edge n eof ts = Inl Fuel"
      with "4.IH"(1) [OF p not_rp] "4.prems" show False
        by simp
    next
      assume "\<exists>e ts1. parse_edge n eof ts = Inr (e, ts1)
              \<and> parse_edges n eof (edges @ [e]) ts1 = Inl Fuel"
      then obtain e ts1 where e: "parse_edge n eof ts = Inr (e, ts1)"
        and more: "parse_edges n eof (edges @ [e]) ts1 = Inl Fuel"
        by blast
      from parse_invariant(3) [OF e] have "length ts1 < length ts"
        by simp
      with "4.prems" have "3 * length ts1 + 2 \<le> n"
        by simp
      from "4.IH"(2) [OF p not_rp e refl this] more show False
        by simp
    qed
  qed
next
  case (5 eof ts)
  then show ?case by simp
next
  case (6 n eof ts)
  show ?case
  proof
    assume "parse_edge (Suc n) eof ts = Inl Fuel"
    then obtain rt ts1 p
      where rt: "expect [''ROLE''] ts = Inr (rt, ts1)" and p: "peek eof ts1 = Inr p"
        and body: "bind (if ttype p = ''ALIGNMENT'' then
             bind (parse_alignment RoleAlignment ts1) (\<lambda>(m, ts2). Inr ([m], ts2))
           else Inr ([], ts1)) (\<lambda>(epidata, ts2).
     bind (peek eof ts2) (\<lambda>nx.
       if ttype nx \<in> ATOMS then
         bind (next_token ts2) (\<lambda>(tt, ts3).
         bind (peek eof ts3) (\<lambda>p3.
           if ttype p3 = ''ALIGNMENT'' then
             bind (parse_alignment Alignment ts3) (\<lambda>(m, ts4).
               Inr (Edge (ttext rt) (Atom (tvalue tt)) (epidata @ [m]), ts4))
           else Inr (Edge (ttext rt) (Atom (tvalue tt)) epidata, ts3)))
       else if ttype nx = ''LPAREN'' then
         bind (parse_node n eof ts2) (\<lambda>((i, es), ts3).
           Inr (Edge (ttext rt) (Node i es) epidata, ts3))
       else if ttype nx \<notin> {''ROLE'', ''RPAREN''} then
         Inl (DecodeError ''Expected: ATOM, LPAREN'' (Some nx))
       else Inr (Edge (ttext rt) (Atom PNone) epidata, ts2))) = Inl Fuel"
      by (auto simp: bind_Fuel_iff)
    have "(if ttype p = ''ALIGNMENT'' then
             bind (parse_alignment RoleAlignment ts1) (\<lambda>(m, ts2). Inr ([m], ts2))
           else Inr ([], ts1)) \<noteq> Inl Fuel"
      by (auto simp: bind_Fuel_iff split: prod.splits)
    with body obtain x
      where x: "(if ttype p = ''ALIGNMENT'' then
             bind (parse_alignment RoleAlignment ts1) (\<lambda>(m, ts2). Inr ([m], ts2))
           else Inr ([], ts1)) = Inr x"
        and body2: "(case x of (ep, ts2) \<Rightarrow>
     bind (peek eof ts2) (\<lambda>nx.
       if ttype nx \<in> ATOMS then
         bind (next_token ts2) (\<lambda>(tt, ts3).
         bind (peek eof ts3) (\<lambda>p3.
           if ttype p3 = ''ALIGNMENT'' then
             bind (parse_alignment Alignment ts3) (\<lambda>(m, ts4).
               Inr (Edge (ttext rt) (Atom (tvalue tt)) (ep @ [m]), ts4))
           else Inr (Edge (ttext rt) (Atom (tvalue tt)) ep, ts3)))
       else if ttype nx = ''LPAREN'' then
         bind (parse_node n eof ts2) (\<lambda>((i, es), ts3).
           Inr (Edge (ttext rt) (Node i es) ep, ts3))
       else if ttype nx \<notin> {''ROLE'', ''RPAREN''} then
         Inl (DecodeError ''Expected: ATOM, LPAREN'' (Some nx))
       else Inr (Edge (ttext rt) (Atom PNone) ep, ts2))) = Inl Fuel"
      unfolding bind_Fuel_iff by blast
    obtain epis ts2 where xeq: "x = (epis, ts2)"
      by (cases x)
    from x xeq have al: "(if ttype p = ''ALIGNMENT'' then
             bind (parse_alignment RoleAlignment ts1) (\<lambda>(m, ts2). Inr ([m], ts2))
           else Inr ([], ts1)) = Inr (epis, ts2)"
      by simp
    from body2 xeq obtain nx
      where nx: "peek eof ts2 = Inr nx"
        and no_atom: "ttype nx \<notin> ATOMS" and lparen: "ttype nx = ''LPAREN''"
        and fuel: "parse_node n eof ts2 = Inl Fuel"
      by (auto simp: bind_Fuel_iff split: if_splits prod.splits)
    from rt have "length ts = Suc (length ts1)"
      by (auto simp: expect_Inr_iff)
    moreover from optional_alignment [OF al] have "length ts2 \<le> length ts1"
      by simp
    ultimately have "3 * length ts2 + 1 \<le> n"
      using "6.prems" by simp
    from "6.IH" [OF rt refl p al refl nx no_atom lparen this] fuel show False
      by simp
  qed
qed

text \<open>\<^verbatim>\<open>parse\<close> never answers that its fuel is used up: it is total on token lists.\<close>

lemma parse_total: "parse eof ts \<noteq> Inl Fuel"
proof
  assume "parse eof ts = Inl Fuel"
  then obtain md ts1 where "parse_node (3 * length ts1 + 3) eof ts1 = Inl Fuel"
    by (auto simp: parse_def parse_comments_def bind_Fuel_iff comments_loop_no_Fuel
        split: prod.splits)
  with parse_fuel(1) [of ts1 "3 * length ts1 + 3" eof] show False
    by simp
qed

text \<open>
  More fuel does not change an answer that is not \<open>Fuel\<close>: what the parser returns
  does not depend on the fuel once there is enough of it.
\<close>

lemma bind_same:
  assumes "bind m f \<noteq> Inl Fuel"
    and "\<And>x. m = Inr x \<Longrightarrow> f x \<noteq> Inl Fuel \<Longrightarrow> g x = f x"
  shows "bind m g = bind m f"
  using assms by (cases m) auto

lemma parse_more_fuel:
  "parse_node n eof ts \<noteq> Inl Fuel \<Longrightarrow> parse_node (n + k) eof ts = parse_node n eof ts"
  "parse_edges n eof acc ts \<noteq> Inl Fuel \<Longrightarrow>
     parse_edges (n + k) eof acc ts = parse_edges n eof acc ts"
  "parse_edge n eof ts \<noteq> Inl Fuel \<Longrightarrow> parse_edge (n + k) eof ts = parse_edge n eof ts"
proof (induction n eof ts and n eof acc ts and n eof ts
    rule: parse_node_parse_edges_parse_edge.induct)
  case (1 eof ts)
  then show ?case by simp
next
  case (2 n eof ts)
  from "2.prems" show ?case
    unfolding add_Suc parse_node.simps
    apply (intro bind_same [where m = "expect [''LPAREN''] ts"])
     apply assumption
    apply (clarsimp simp del: parse_node_label.simps)
    apply (intro bind_same)
     apply assumption
    apply (clarsimp simp del: parse_node_label.simps)
    apply (intro bind_same)
     apply assumption
    apply (clarsimp simp del: parse_node_label.simps)
    apply (intro bind_same)
     apply assumption
    apply (clarsimp simp del: parse_node_label.simps)
    apply (case_tac xb)
    apply (clarsimp simp del: parse_node_label.simps)
    apply (rule arg_cong2 [where f = bind])
     apply (rule "2.IH")
              apply (assumption | rule refl)+
     apply (auto simp: bind_Fuel_iff)
    done
next
  case (3 eof edges ts)
  then show ?case by simp
next
  case (4 n eof edges ts)
  show ?case
  proof (cases "peek eof ts")
    case (Inl e)
    then show ?thesis by simp
  next
    case (Inr p)
    show ?thesis
    proof (cases "ttype p = ''RPAREN''")
      case True
      with Inr show ?thesis by simp
    next
      case False
      from "4.prems" Inr False
      have enough: "bind (parse_edge n eof ts) (\<lambda>(e, ts1). parse_edges n eof (edges @ [e]) ts1)
          \<noteq> Inl Fuel"
        by simp
      then have "parse_edge n eof ts \<noteq> Inl Fuel"
        by (auto simp: bind_Fuel_iff)
      then have one: "parse_edge (n + k) eof ts = parse_edge n eof ts"
        by (rule "4.IH"(1) [OF Inr False])
      have "bind (parse_edge n eof ts) (\<lambda>(e, ts1). parse_edges (n + k) eof (edges @ [e]) ts1)
          = bind (parse_edge n eof ts) (\<lambda>(e, ts1). parse_edges n eof (edges @ [e]) ts1)"
      proof (rule bind_same [OF enough])
        fix x
        assume x: "parse_edge n eof ts = Inr x"
          and rest: "(case x of (e, ts1) \<Rightarrow> parse_edges n eof (edges @ [e]) ts1) \<noteq> Inl Fuel"
        obtain e ts1 where xeq: "x = (e, ts1)"
          by (cases x)
        from rest xeq have "parse_edges n eof (edges @ [e]) ts1 \<noteq> Inl Fuel"
          by simp
        from "4.IH"(2) [OF Inr False x xeq [symmetric] this] xeq
        show "(case x of (e, ts1) \<Rightarrow> parse_edges (n + k) eof (edges @ [e]) ts1)
            = (case x of (e, ts1) \<Rightarrow> parse_edges n eof (edges @ [e]) ts1)"
          by simp
      qed
      with Inr False one show ?thesis by simp
    qed
  qed
next
  case (5 eof ts)
  then show ?case by simp
next
  case (6 n eof ts)
  show ?case
  proof (cases "expect [''ROLE''] ts")
    case (Inl e)
    then show ?thesis by simp
  next
    case (Inr x)
    obtain rt ts1 where x: "x = (rt, ts1)"
      by (cases x)
    show ?thesis
    proof (cases "peek eof ts1")
      case (Inl e)
      with Inr x show ?thesis by simp
    next
      case p: (Inr p)
      show ?thesis
      proof (cases "if ttype p = ''ALIGNMENT'' then
             bind (parse_alignment RoleAlignment ts1) (\<lambda>(m, ts2). Inr ([m], ts2))
           else Inr ([], ts1)")
        case (Inl e)
        with Inr x p show ?thesis by simp
      next
        case al: (Inr y)
        obtain epis ts2 where y: "y = (epis, ts2)"
          by (cases y)
        show ?thesis
        proof (cases "peek eof ts2")
          case (Inl e)
          with Inr x p al y show ?thesis by simp
        next
          case nx: (Inr nx)
          show ?thesis
          proof (cases "ttype nx \<notin> ATOMS \<and> ttype nx = ''LPAREN''")
            case True
            with "6.prems" Inr x p al y nx
            have "bind (parse_node n eof ts2) (\<lambda>((i, es), ts3).
                Inr (Edge (ttext rt) (Node i es) epis, ts3)) \<noteq> Inl Fuel"
              by (simp add: ATOMS_def)
            then have "parse_node n eof ts2 \<noteq> Inl Fuel"
              by (auto simp: bind_Fuel_iff)
            with True have "parse_node (n + k) eof ts2 = parse_node n eof ts2"
              by (intro "6.IH" [OF Inr x [symmetric] p al y [symmetric] nx]) (simp_all add: ATOMS_def)
            with True Inr x p al y nx show ?thesis by (simp add: ATOMS_def)
          next
            case False
            with Inr x p al y nx show ?thesis by auto
          qed
        qed
      qed
    qed
  qed
qed

end
